theory Spec2Isabelle
  imports Complex_Main "HOL-Library.AList"
begin

section \<open>Conventions of the embedding\<close>

text \<open>
  The embedding follows \<^verbatim>\<open>src/fit.py\<close>. A metric value is a \<open>pyfloat\<close>: a number, taken as
  a real (comparison of finite floats is the order of the reals, and multiplying by the
  integer sign \<open>1\<close> or \<open>-1\<close> is exact), an infinity, or NaN, which a diverged metric
  produces and the histories then hold. Learning rates, batch losses and times are reals. Python integers are
  \<^typ>\<open>int\<close>. Exceptions are values of the type \<open>error\<close>; a method that mutates \<open>self\<close> takes the
  object and returns the updated one. What the external framework computes (the training
  step, the evaluation pass, the shuffle, the formatting of a float) is a parameter of the
  function that uses it. Console output is modelled for \<open>progress_bar\<close> only; the other
  \<open>print\<close> calls of the file write text and change nothing.
\<close>

datatype error =
    KeyError string
  | ValueError
  | IndexError
  | UnboundLocalError string
  | ZeroDivisionError
  | AttributeError string
  | TypeError
  | InvalidArgumentError

text \<open>
  Floats: a finite number, plus or minus infinity, or NaN. The infinities are below and above
  every number, every comparison with NaN is false, and the product with an integer follows
  IEEE arithmetic (zero times an infinity is NaN).
\<close>

datatype pyfloat = Float real | PInf | NInf | NaN

fun fless :: "pyfloat \<Rightarrow> pyfloat \<Rightarrow> bool" where
  "fless (Float a) (Float b) = (a < b)"
| "fless (Float a) PInf = True"
| "fless NInf (Float b) = True"
| "fless NInf PInf = True"
| "fless _ _ = False"

fun fle :: "pyfloat \<Rightarrow> pyfloat \<Rightarrow> bool" where
  "fle (Float a) (Float b) = (a \<le> b)"
| "fle (Float a) PInf = True"
| "fle NInf (Float b) = True"
| "fle NInf PInf = True"
| "fle PInf PInf = True"
| "fle NInf NInf = True"
| "fle _ _ = False"

fun fscale :: "int \<Rightarrow> pyfloat \<Rightarrow> pyfloat" where
  "fscale k (Float a) = Float (real_of_int k * a)"
| "fscale k PInf = (if 0 < k then PInf else if k < 0 then NInf else NaN)"
| "fscale k NInf = (if 0 < k then NInf else if k < 0 then PInf else NaN)"
| "fscale k NaN = NaN"

section \<open>LRDecay\<close>

record optimizer =
  learning_rate :: real

record LRDecay =
  optimizer :: optimizer
  lr :: real
  decay_rate :: real
  patience :: int
  metric :: string
  index :: int
  best_val :: pyfloat
  sign :: int

text \<open>\<open>LRDecay.initialize\<close>: the sentinel best value and the comparison sign.\<close>

definition initialize :: "LRDecay \<Rightarrow> string \<Rightarrow> LRDecay" where
  "initialize self m =
     (if m = ''loss'' then self\<lparr>best_val := Float (10 ^ 10), sign := 1\<rparr>
      else self\<lparr>best_val := Float (- (10 ^ 10)), sign := - 1\<rparr>)"

text \<open>\<open>LRDecay.__init__\<close>; \<open>optimizer.lr\<close> is the optimizer's learning rate.\<close>

definition LRDecay_init :: "optimizer \<Rightarrow> real \<Rightarrow> int \<Rightarrow> string \<Rightarrow> LRDecay" where
  "LRDecay_init opt rate pat m =
     initialize \<lparr>optimizer = opt, lr = learning_rate opt, decay_rate = rate, patience = pat,
                 metric = m, index = 0, best_val = Float 0, sign = 0\<rparr> m"

text \<open>\<open>LRDecay.status\<close> returns the flag together with the updated object.\<close>

definition status :: "LRDecay \<Rightarrow> pyfloat \<Rightarrow> bool \<times> LRDecay" where
  "status self val =
     (if fless (fscale (sign self) val) (fscale (sign self) (best_val self))
      then (False, self\<lparr>best_val := val, index := 0\<rparr>)
      else (let self1 = self\<lparr>index := index self + 1\<rparr>
            in if index self1 = patience self1 then (True, self1\<lparr>index := 0\<rparr>)
               else (False, self1)))"

text \<open>The test of \<open>status\<close>: the value is strictly better than the best one so far.\<close>

definition improves :: "LRDecay \<Rightarrow> pyfloat \<Rightarrow> bool" where
  "improves self val \<longleftrightarrow> fless (fscale (sign self) val) (fscale (sign self) (best_val self))"

definition decay_learning_rate :: "LRDecay \<Rightarrow> LRDecay" where
  "decay_learning_rate self =
     (let self1 = self\<lparr>lr := lr self * decay_rate self\<rparr>
      in self1\<lparr>optimizer := (optimizer self1)\<lparr>learning_rate := lr self1\<rparr>\<rparr>)"

definition check :: "LRDecay \<Rightarrow> pyfloat \<Rightarrow> LRDecay" where
  "check self val =
     (case status self val of
        (True, self1) \<Rightarrow> decay_learning_rate self1
      | (False, self1) \<Rightarrow> self1)"

text \<open>Feeding a sequence of values to \<open>check\<close>, one at a time.\<close>

fun check_all :: "LRDecay \<Rightarrow> pyfloat list \<Rightarrow> LRDecay" where
  "check_all self [] = self"
| "check_all self (v # vs) = check_all (check self v) vs"

text \<open>The number of calls of \<open>decay_learning_rate\<close> made while the sequence is fed.\<close>

fun num_decays :: "LRDecay \<Rightarrow> pyfloat list \<Rightarrow> nat" where
  "num_decays self [] = 0"
| "num_decays self (v # vs) =
     (if fst (status self v) then 1 else 0) + num_decays (check self v) vs"

section \<open>MonitorMetrics\<close>

text \<open>
  The dictionary \<open>self.value\<close> is an association list in insertion order, as a Python
  dictionary is: \<open>map_of\<close> looks a key up, \<open>AList.update\<close> assigns to a key (in place when it
  is there, at the end when it is new).
\<close>

record MonitorMetrics =
  "value" :: "(string \<times> pyfloat list) list"
  metric_names :: "string list"

definition initialize_metrics :: "MonitorMetrics \<Rightarrow> string list \<Rightarrow> MonitorMetrics" where
  "initialize_metrics self names =
     (let v0 = AList.update ''loss'' [] (value self);
          v1 = (if ''acc'' \<in> set names
                then AList.update ''acc_std'' [] (AList.update ''acc'' [] v0) else v0);
          v2 = (if ''auroc'' \<in> set names
                then AList.update ''auroc_std'' [] (AList.update ''auroc'' [] v1) else v1);
          v3 = (if ''aupr'' \<in> set names
                then AList.update ''aupr_std'' [] (AList.update ''aupr'' [] v2) else v2);
          v4 = (if ''corr'' \<in> set names
                then AList.update ''corr_std'' [] (AList.update ''corr'' [] v3) else v3);
          v5 = (if ''mcc'' \<in> set names
                then AList.update ''mcc_std'' [] (AList.update ''mcc'' [] v4) else v4);
          v6 = (if ''mse'' \<in> set names
                then AList.update ''mse_std'' [] (AList.update ''mse'' [] v5) else v5)
      in self\<lparr>value := v6\<rparr>)"

definition MonitorMetrics_init :: "string list \<Rightarrow> MonitorMetrics" where
  "MonitorMetrics_init names = initialize_metrics \<lparr>value = [], metric_names = names\<rparr> names"

text \<open>
  \<open>MonitorMetrics.update(**kwargs)\<close>. The keyword arguments are the list of (name, values)
  pairs in the order of the call; \<open>nanmean\<close> and \<open>nanstd\<close> stand for \<open>np.nanmean\<close> and
  \<open>np.nanstd\<close> on the values supplied for one name. \<open>self.value[k]\<close> raises \<open>KeyError\<close> on a
  key that is not there. The loop appends name by name, so a call that raises has already
  appended for the names before the missing one: the error comes with the object as the
  call left it.
\<close>

fun MonitorMetrics_update ::
  "('v \<Rightarrow> pyfloat) \<Rightarrow> ('v \<Rightarrow> pyfloat) \<Rightarrow> MonitorMetrics \<Rightarrow> (string \<times> 'v) list
   \<Rightarrow> (error \<times> MonitorMetrics) + MonitorMetrics"
where
  "MonitorMetrics_update nanmean nanstd self [] = Inr self"
| "MonitorMetrics_update nanmean nanstd self ((metric_name, x) # kwargs) =
     (case map_of (value self) metric_name of
        None \<Rightarrow> Inl (KeyError metric_name, self)
      | Some h \<Rightarrow>
          (let self1 = self\<lparr>value := AList.update metric_name (h @ [nanmean x]) (value self)\<rparr>
           in if metric_name \<noteq> ''loss''
              then (case map_of (value self1) (metric_name @ ''_std'') of
                      None \<Rightarrow> Inl (KeyError (metric_name @ ''_std''), self1)
                    | Some hs \<Rightarrow>
                        MonitorMetrics_update nanmean nanstd
                          (self1\<lparr>value := AList.update (metric_name @ ''_std'') (hs @ [nanstd x])
                                             (value self1)\<rparr>) kwargs)
              else MonitorMetrics_update nanmean nanstd self1 kwargs))"

text \<open>The object a call leaves, whether it returned or raised.\<close>

definition store_left :: "(error \<times> 's) + 's \<Rightarrow> 's" where
  "store_left r = (case r of Inl (e, s) \<Rightarrow> s | Inr s \<Rightarrow> s)"

text \<open>
  A sequence of \<open>update\<close> calls on one object; the first exception ends it and comes with
  the object as it was left.
\<close>

fun update_all ::
  "('v \<Rightarrow> pyfloat) \<Rightarrow> ('v \<Rightarrow> pyfloat) \<Rightarrow> MonitorMetrics \<Rightarrow> (string \<times> 'v) list list
   \<Rightarrow> (error \<times> MonitorMetrics) + MonitorMetrics"
where
  "update_all nanmean nanstd self [] = Inr self"
| "update_all nanmean nanstd self (kwargs # calls) =
     (case MonitorMetrics_update nanmean nanstd self kwargs of
        Inl (e, left) \<Rightarrow> Inl (e, left)
      | Inr self1 \<Rightarrow> update_all nanmean nanstd self1 calls)"

text \<open>
  The names \<open>initialize_metrics\<close> tests for, and the metrics it creates a history for out
  of the declared names: "loss" always, a recognized name when it is declared.
\<close>

definition recognized :: "string list" where
  "recognized = [''acc'', ''auroc'', ''aupr'', ''corr'', ''mcc'', ''mse'']"

definition tracked :: "string list \<Rightarrow> string list" where
  "tracked names = ''loss'' # filter (\<lambda>n. n \<in> set names) recognized"

text \<open>The number of calls of a sequence that name a metric.\<close>

definition calls_naming :: "string \<Rightarrow> (string \<times> 'v) list list \<Rightarrow> nat" where
  "calls_naming n calls = length (filter (\<lambda>kwargs. n \<in> fst ` set kwargs) calls)"




section \<open>TrainMetrics\<close>

record TrainMetrics =
  train :: MonitorMetrics
  valid :: MonitorMetrics
  test :: MonitorMetrics

definition TrainMetrics_init :: "string list \<Rightarrow> TrainMetrics" where
  "TrainMetrics_init names =
     \<lparr>train = MonitorMetrics_init names, valid = MonitorMetrics_init names,
      test = MonitorMetrics_init names\<rparr>"

definition TrainMetrics_update ::
  "('v \<Rightarrow> pyfloat) \<Rightarrow> ('v \<Rightarrow> pyfloat) \<Rightarrow> TrainMetrics \<Rightarrow> string \<Rightarrow> (string \<times> 'v) list
   \<Rightarrow> (error \<times> TrainMetrics) + TrainMetrics" where
  "TrainMetrics_update nanmean nanstd self name kwargs =
     (if name = ''train''
      then (case MonitorMetrics_update nanmean nanstd (train self) kwargs of
              Inl (e, m) \<Rightarrow> Inl (e, self\<lparr>train := m\<rparr>) | Inr m \<Rightarrow> Inr (self\<lparr>train := m\<rparr>))
      else if name = ''valid''
      then (case MonitorMetrics_update nanmean nanstd (valid self) kwargs of
              Inl (e, m) \<Rightarrow> Inl (e, self\<lparr>valid := m\<rparr>) | Inr m \<Rightarrow> Inr (self\<lparr>valid := m\<rparr>))
      else if name = ''test''
      then (case MonitorMetrics_update nanmean nanstd (test self) kwargs of
              Inl (e, m) \<Rightarrow> Inl (e, self\<lparr>test := m\<rparr>) | Inr m \<Rightarrow> Inr (self\<lparr>test := m\<rparr>))
      else Inr self)"


section \<open>Trainer\<close>

text \<open>
  The model object of the framework: its weights are opaque, its optimizer is the object
  \<open>LRDecay\<close> holds a reference to, and \<open>model_metrics\<close> are the names of \<open>model.metrics\<close>.
  What the framework computes is a record of functions: the order in which
  \<open>Dataset.shuffle(buffer_size)\<close> yields the samples, the training step on one batch (the
  model after the step, the loss and the predictions of the batch) and \<open>model.evaluate\<close>
  (the loss followed by one value per metric).
\<close>

record 'w model =
  weights :: 'w
  model_optimizer :: optimizer
  model_metrics :: "string list"

record ('w, 'x, 'y, 'p) framework =
  fw_shuffle :: "int \<Rightarrow> ('x \<times> 'y) list \<Rightarrow> ('x \<times> 'y) list"
  fw_train_step :: "'w model \<Rightarrow> ('x \<times> 'y) list \<Rightarrow> 'w model \<times> real \<times> 'p list"
  fw_evaluate :: "'w model \<Rightarrow> 'x list \<Rightarrow> 'y list \<Rightarrow> pyfloat list"
  fw_format_5f :: "pyfloat \<Rightarrow> string"

record 'w Trainer =
  model :: "'w model"
  metrics :: TrainMetrics
  lr_decay :: "LRDecay option"


text \<open>\<open>Dataset.batch(batch_size)\<close>: consecutive chunks, the last one possibly shorter.\<close>

function batch :: "nat \<Rightarrow> 'a list \<Rightarrow> 'a list list" where
  "batch n xs = (if n = 0 \<or> xs = [] then [] else take n xs # batch n (drop n xs))"
  by pat_completeness auto
termination
  by (relation "measure (\<lambda>(n, xs). length xs)") auto

declare batch.simps [simp del]

text \<open>
  The loop of \<open>train_epoch\<close> over the batches: the model, the running loss and the
  collected predictions and targets.
\<close>

fun train_batches ::
  "('w, 'x, 'y, 'p) framework \<Rightarrow> 'w model \<Rightarrow> real \<Rightarrow> 'p list list \<Rightarrow> 'y list list
   \<Rightarrow> ('x \<times> 'y) list list \<Rightarrow> 'w model \<times> real \<times> 'p list list \<times> 'y list list"
where
  "train_batches fw m running_loss pred_batch y_batch [] = (m, running_loss, pred_batch, y_batch)"
| "train_batches fw m running_loss pred_batch y_batch (b # bs) =
     (case fw_train_step fw m b of
        (m1, loss, pred) \<Rightarrow>
          train_batches fw m1 (running_loss + loss) (pred_batch @ [pred])
            (y_batch @ [map snd b]) bs)"

text \<open>
  \<open>Trainer.train_epoch\<close>. \<open>batch_dataset\<close> is assigned under \<open>if shuffle:\<close> only, so the
  next line reads an unbound local when \<open>shuffle\<close> is false. The framework rejects a batch
  size that is not positive, and \<open>np.concatenate\<close> raises \<open>ValueError\<close> on an empty list.
  The result is the updated trainer with the triple the method returns.
\<close>

definition train_epoch ::
  "('w, 'x, 'y, 'p) framework \<Rightarrow> 'w Trainer \<Rightarrow> ('x \<times> 'y) list \<Rightarrow> bool \<Rightarrow> int \<Rightarrow> bool
   \<Rightarrow> error + ('w Trainer \<times> real \<times> 'p list \<times> 'y list)" where
  "train_epoch fw self trainset shuffle batch_size verbose =
     (if shuffle
      then (if batch_size \<le> 0 then Inl InvalidArgumentError
            else (let batch_dataset = batch (nat batch_size) (fw_shuffle fw batch_size trainset)
                  in case train_batches fw (model self) 0 [] [] batch_dataset of
                       (m, running_loss, pred_batch, y_batch) \<Rightarrow>
                         if pred_batch = [] then Inl ValueError
                         else Inr (self\<lparr>model := m\<rparr>,
                                   running_loss / real (length batch_dataset),
                                   concat pred_batch, concat y_batch)))
      else Inl (UnboundLocalError ''batch_dataset''))"



text \<open>
  The values \<open>evaluate\<close> hands to \<open>update\<close> are scalars: \<open>np.nanmean\<close> of a scalar is the
  scalar itself, and \<open>np.nanstd\<close> of it is zero, or NaN when the scalar is not finite.
\<close>

definition scalar_nanmean :: "pyfloat \<Rightarrow> pyfloat" where
  "scalar_nanmean v = v"

definition scalar_nanstd :: "pyfloat \<Rightarrow> pyfloat" where
  "scalar_nanstd v = (case v of Float x \<Rightarrow> Float 0 | _ \<Rightarrow> NaN)"


text \<open>
  \<open>np.argmin\<close> and \<open>np.argmax\<close> of a list, as numpy scans it: the position of the best value
  seen is replaced when the next value is not \<open>>=\<close> it (not \<open><=\<close> it for the maximum), which a
  strictly better value and a NaN both are, and the scan stops at a NaN. So the answer is
  the position of the first NaN when there is one. \<open>ValueError\<close> on the empty list.
\<close>

fun argmin_scan :: "pyfloat list \<Rightarrow> nat \<Rightarrow> nat \<Rightarrow> pyfloat \<Rightarrow> nat" where
  "argmin_scan [] i best_i best = best_i"
| "argmin_scan (x # xs) i best_i best =
     (if best = NaN then best_i
      else if \<not> fle best x then argmin_scan xs (i + 1) i x
      else argmin_scan xs (i + 1) best_i best)"

fun argmax_scan :: "pyfloat list \<Rightarrow> nat \<Rightarrow> nat \<Rightarrow> pyfloat \<Rightarrow> nat" where
  "argmax_scan [] i best_i best = best_i"
| "argmax_scan (x # xs) i best_i best =
     (if best = NaN then best_i
      else if \<not> fle x best then argmax_scan xs (i + 1) i x
      else argmax_scan xs (i + 1) best_i best)"

definition np_argmin :: "pyfloat list \<Rightarrow> error + nat" where
  "np_argmin vals = (case vals of [] \<Rightarrow> Inl ValueError | x # xs \<Rightarrow> Inr (argmin_scan xs 1 0 x))"

definition np_argmax :: "pyfloat list \<Rightarrow> error + nat" where
  "np_argmax vals = (case vals of [] \<Rightarrow> Inl ValueError | x # xs \<Rightarrow> Inr (argmax_scan xs 1 0 x))"

text \<open>
  What the two answers are, in the words of the claim on \<open>early_stopping\<close> and with the NaN
  case written out: \<open>i\<close> is the best index of a history when it is the position of the first
  NaN, or, in a history without NaN, the earliest position of the minimum (for "loss") or
  of the maximum (for any other metric).
\<close>

definition best_index :: "string \<Rightarrow> pyfloat list \<Rightarrow> nat \<Rightarrow> bool" where
  "best_index metric_name vals i \<longleftrightarrow>
     i < length vals
     \<and> (\<forall>j<i. vals ! j \<noteq> vals ! i)
     \<and> (if NaN \<in> set vals then vals ! i = NaN
         else if metric_name = ''loss'' then \<forall>j<length vals. fle (vals ! i) (vals ! j)
         else \<forall>j<length vals. fle (vals ! j) (vals ! i))"

definition early_stopping :: "'w Trainer \<Rightarrow> string \<Rightarrow> int \<Rightarrow> error + bool" where
  "early_stopping self metric_name patience_arg =
     (case map_of (value (valid (metrics self))) metric_name of
        None \<Rightarrow> Inl (KeyError metric_name)
      | Some vals \<Rightarrow>
          (case (if metric_name = ''loss'' then np_argmin vals else np_argmax vals) of
             Inl e \<Rightarrow> Inl e
           | Inr idx \<Rightarrow>
               Inr (patience_arg - (int (length vals) - int idx - 1) \<le> 0)))"



section \<open>fit_lr_decay\<close>











section \<open>progress_bar\<close>

text \<open>
  Python's \<open>round\<close> of a float: to the nearest integer, a tie to the even one.
\<close>

definition py_round :: "real \<Rightarrow> int" where
  "py_round x =
     (let f = \<lfloor>x\<rfloor>; d = x - of_int f
      in if d < 1 / 2 then f else if 1 / 2 < d then f + 1 else if even f then f else f + 1)"

text \<open>
  The \<open>%\<close> operator on a format string and a tuple of values, for the directives the file
  uses: \<open>%s\<close>, \<open>%.1f\<close>, \<open>%.5f\<close> and \<open>%%\<close>. The three formatters stand for Python's \<open>%.1f\<close>,
  \<open>%.5f\<close> and \<open>str\<close> of a float. Too few or too many values and a string under a float
  directive raise \<open>TypeError\<close>, any other directive \<open>ValueError\<close>.
\<close>

datatype fmt_arg = Str string | Num real

record formatter =
  format_1f :: "real \<Rightarrow> string"
  format_5f :: "real \<Rightarrow> string"
  format_str :: "real \<Rightarrow> string"

definition emit :: "string \<Rightarrow> error + string \<Rightarrow> error + string" where
  "emit s r = (case r of Inl e \<Rightarrow> Inl e | Inr out \<Rightarrow> Inr (s @ out))"

fun py_format :: "formatter \<Rightarrow> string \<Rightarrow> fmt_arg list \<Rightarrow> error + string" where
  "py_format fm [] vals = (if vals = [] then Inr [] else Inl TypeError)"
| "py_format fm (c # cs) vals =
     (if c \<noteq> CHR ''%'' then emit [c] (py_format fm cs vals)
      else (case cs of
              [] \<Rightarrow> Inl ValueError
            | d # ds \<Rightarrow>
                if d = CHR ''%'' then emit ''%'' (py_format fm ds vals)
                else if d = CHR ''s''
                then (case vals of
                        [] \<Rightarrow> Inl TypeError
                      | Str s # vs \<Rightarrow> emit s (py_format fm ds vs)
                      | Num x # vs \<Rightarrow> emit (format_str fm x) (py_format fm ds vs))
                else if d = CHR ''.''
                then (case ds of
                        p # f # r \<Rightarrow>
                          if f = CHR ''f'' \<and> (p = CHR ''1'' \<or> p = CHR ''5'')
                          then (case vals of
                                  [] \<Rightarrow> Inl TypeError
                                | Str s # vs \<Rightarrow> Inl TypeError
                                | Num x # vs \<Rightarrow>
                                    emit (if p = CHR ''1'' then format_1f fm x else format_5f fm x)
                                      (py_format fm r vs))
                          else Inl ValueError
                      | _ \<Rightarrow> Inl ValueError)
                else Inl ValueError))"

text \<open>One of the \<open>if '<name>' in kwargs:\<close> blocks: the text and the values so far, extended.\<close>

definition add_metric ::
  "(string \<rightharpoonup> real) \<Rightarrow> string \<Rightarrow> string \<Rightarrow> string \<times> fmt_arg list \<Rightarrow> string \<times> fmt_arg list" where
  "add_metric kwargs name piece tv =
     (case kwargs name of
        None \<Rightarrow> tv
      | Some x \<Rightarrow> (fst tv @ piece, snd tv @ [Num x]))"

text \<open>
  \<open>progress_bar\<close> returns the text it writes to the console. \<open>now\<close> is the reading of
  \<open>time.time()\<close>; the keyword arguments are a map from names to values. Both divisions raise
  \<open>ZeroDivisionError\<close> on a zero divisor, and a negative count repeats a string zero times.
\<close>

definition progress_bar ::
  "formatter \<Rightarrow> real \<Rightarrow> int \<Rightarrow> int \<Rightarrow> real \<Rightarrow> int \<Rightarrow> (string \<rightharpoonup> real) \<Rightarrow> error + string" where
  "progress_bar fm now iter num_batches start_time bar_length kwargs =
     (if num_batches = 0 then Inl ZeroDivisionError
      else
        (let percent = real_of_int iter / real_of_int num_batches;
             progress = replicate (nat (py_round (percent * real_of_int bar_length))) CHR ''='';
             spaces = replicate (nat (bar_length - py_round (percent * real_of_int bar_length)))
                        CHR '' ''
         in if iter \<noteq> num_batches \<and> iter + 1 = 0 then Inl ZeroDivisionError
            else
              (let tv0 =
                     (if iter = num_batches
                      then ([CHR 0x0D] @ ''[%s] %.1f%% -- elapsed time=%.1fs'',
                            [Str (progress @ spaces), Num (percent * 100), Num (now - start_time)])
                      else ([CHR 0x0D] @ ''[%s] %.1f%%  -- remaining time=%.1fs'',
                            [Str (progress @ spaces), Num (percent * 100),
                             Num ((now - start_time) * real_of_int (num_batches - (iter + 1))
                                  / real_of_int (iter + 1))]));
                   tv1 = add_metric kwargs ''loss'' '' -- loss=%.5f'' tv0;
                   tv2 = add_metric kwargs ''acc'' '' -- acc=%.5f'' tv1;
                   tv3 = add_metric kwargs ''auroc'' '' -- auroc=%.5f'' tv2;
                   tv4 = add_metric kwargs ''aupr'' '' -- aupr=%.5f'' tv3;
                   tv5 = add_metric kwargs ''pearsonr'' '' -- pearsonr=%.5f'' tv4;
                   tv6 = add_metric kwargs ''mcc'' '' -- mcc=%.5f'' tv5;
                   tv7 = add_metric kwargs ''mse'' '' -- mse=%.5f'' tv6;
                   output_text = (if iter = num_batches then fst tv7 @ [CHR 0x0A] else fst tv7)
               in py_format fm output_text (snd tv7))))"

text \<open>The seven blocks of \<open>progress_bar\<close>, in the order of the source.\<close>

definition pieces :: "(string \<times> string) list" where
  "pieces = [(''loss'', '' -- loss=%.5f''), (''acc'', '' -- acc=%.5f''),
             (''auroc'', '' -- auroc=%.5f''), (''aupr'', '' -- aupr=%.5f''),
             (''pearsonr'', '' -- pearsonr=%.5f''), (''mcc'', '' -- mcc=%.5f''),
             (''mse'', '' -- mse=%.5f'')]"

text \<open>
  A formatter for running \<open>progress_bar\<close> on concrete values: decimal digits of the value
  rounded to \<open>d\<close> places, a tie to the even digit.
\<close>

definition digit_char :: "nat \<Rightarrow> char" where
  "digit_char n = ''0123456789'' ! (n mod 10)"

function dec_digits :: "nat \<Rightarrow> string" where
  "dec_digits n = (if n < 10 then [digit_char n] else dec_digits (n div 10) @ [digit_char n])"
  by pat_completeness auto
termination
  by (relation "measure (\<lambda>n. n)") auto

declare dec_digits.simps [simp del]

definition format_fixed :: "nat \<Rightarrow> real \<Rightarrow> string" where
  "format_fixed d x =
     (let n = nat (py_round (\<bar>x\<bar> * 10 ^ d)); frac = dec_digits (n mod 10 ^ d)
      in (if x < 0 then ''-'' else []) @ dec_digits (n div 10 ^ d) @ ''.''
         @ replicate (d - length frac) CHR ''0'' @ frac)"

definition example_formatter :: formatter where
  "example_formatter =
     \<lparr>format_1f = format_fixed 1, format_5f = format_fixed 5, format_str = format_fixed 1\<rparr>"

section \<open>Properties of LRDecay\<close>

lemma fless_irrefl: "\<not> fless a a"
  by (cases a) simp_all

lemma status_improves:
  "improves d v \<Longrightarrow> status d v = (False, d\<lparr>best_val := v, index := 0\<rparr>)"
  by (simp add: status_def improves_def)

lemma status_stagnant:
  "\<not> improves d v \<Longrightarrow>
   status d v = (index d + 1 = patience d,
                 d\<lparr>index := (if index d + 1 = patience d then 0 else index d + 1)\<rparr>)"
  by (simp add: status_def improves_def Let_def)

lemma check_fields:
  "decay_rate (check d v) = decay_rate d"
  "patience (check d v) = patience d"
  "sign (check d v) = sign d"
  "lr (check d v) = (if fst (status d v) then lr d * decay_rate d else lr d)"
  by (auto simp: check_def status_def decay_learning_rate_def Let_def split: prod.splits bool.splits if_splits)

lemma check_stagnant:
  "\<not> improves d v \<Longrightarrow> best_val (check d v) = best_val d"
  "\<not> improves d v \<Longrightarrow> index (check d v) = (if index d + 1 = patience d then 0 else index d + 1)"
  by (auto simp: check_def status_stagnant decay_learning_rate_def Let_def split: prod.splits bool.splits)

lemma check_improves:
  "improves d v \<Longrightarrow> best_val (check d v) = v"
  "improves d v \<Longrightarrow> index (check d v) = 0"
  by (auto simp: check_def status_improves)

lemma improves_check_stagnant:
  "\<not> improves d v \<Longrightarrow> \<not> improves (check d v) v"
  by (simp add: improves_def check_fields check_stagnant)

lemma improves_check_improves:
  "improves d v \<Longrightarrow> \<not> improves (check d v) v"
  by (simp add: improves_def check_fields check_improves fless_irrefl)

lemma num_decays_stagnant:
  "\<not> improves d v \<Longrightarrow> 0 \<le> index d \<Longrightarrow> index d < patience d \<Longrightarrow>
   num_decays d (replicate n v) = (nat (index d) + n) div nat (patience d)"
proof (induction n arbitrary: d)
  case 0
  then show ?case by simp
next
  case (Suc n)
  let ?d = "check d v"
  have st: "\<not> improves ?d v" using Suc.prems(1) by (rule improves_check_stagnant)
  show ?case
  proof (cases "index d + 1 = patience d")
    case True
    have i0: "index ?d = 0" using Suc.prems(1) True by (simp add: check_stagnant)
    have "num_decays ?d (replicate n v) = (nat (index ?d) + n) div nat (patience ?d)"
      using st i0 Suc.prems by (intro Suc.IH) (simp_all add: check_fields)
    then have "num_decays ?d (replicate n v) = n div nat (patience d)"
      by (simp add: i0 check_fields)
    moreover have "fst (status d v)" using Suc.prems(1) True by (simp add: status_stagnant)
    moreover have "(nat (index d) + Suc n) div nat (patience d) = Suc (n div nat (patience d))"
    proof -
      have "nat (index d) + Suc n = nat (patience d) + n" using True Suc.prems by linarith
      moreover have "0 < nat (patience d)" using Suc.prems by linarith
      ultimately show ?thesis by (simp only: div_add_self1)
    qed
    ultimately show ?thesis by (simp del: replicate_Suc add: replicate.simps)
  next
    case False
    have i1: "index ?d = index d + 1" using Suc.prems(1) False by (simp add: check_stagnant)
    have "num_decays ?d (replicate n v) = (nat (index ?d) + n) div nat (patience ?d)"
      using st i1 Suc.prems False by (intro Suc.IH) (simp_all add: check_fields)
    then have "num_decays ?d (replicate n v) = (nat (index d + 1) + n) div nat (patience d)"
      by (simp add: i1 check_fields)
    moreover have "\<not> fst (status d v)" using Suc.prems(1) False by (simp add: status_stagnant)
    moreover have "nat (index d + 1) + n = nat (index d) + Suc n" using Suc.prems by linarith
    ultimately show ?thesis by (simp only: replicate.simps num_decays.simps) simp
  qed
qed

lemma lr_check_all:
  "lr (check_all d vs) = lr d * decay_rate d ^ num_decays d vs"
  by (induction vs arbitrary: d) (simp_all add: check_fields)

lemma num_decays_improves:
  assumes "improves d v" "0 < patience d"
  shows "num_decays d (replicate (Suc n) v) = n div nat (patience d)"
proof -
  let ?d = "check d v"
  have "num_decays ?d (replicate n v) = (nat (index ?d) + n) div nat (patience ?d)"
    using assms by (intro num_decays_stagnant improves_check_improves)
      (simp_all add: check_improves check_fields)
  moreover have "\<not> fst (status d v)" using assms by (simp add: status_improves)
  ultimately show ?thesis using assms by (simp add: check_improves check_fields)
qed

lemma init_fields:
  "lr (LRDecay_init opt rate p m) = learning_rate opt"
  "decay_rate (LRDecay_init opt rate p m) = rate"
  "patience (LRDecay_init opt rate p m) = p"
  "index (LRDecay_init opt rate p m) = 0"
  "best_val (LRDecay_init opt rate p m)
   = (if m = ''loss'' then Float (10 ^ 10) else Float (- (10 ^ 10)))"
  "sign (LRDecay_init opt rate p m) = (if m = ''loss'' then 1 else - 1)"
  by (simp_all add: LRDecay_init_def initialize_def)

lemma optimizer_check:
  "learning_rate (optimizer d) = lr d \<Longrightarrow> learning_rate (optimizer (check d v)) = lr (check d v)"
  by (auto simp: check_def status_def decay_learning_rate_def Let_def split: prod.splits bool.splits if_splits)

lemma optimizer_check_all:
  "learning_rate (optimizer d) = lr d \<Longrightarrow>
   learning_rate (optimizer (check_all d vs)) = lr (check_all d vs)"
  by (induction vs arbitrary: d) (simp_all add: optimizer_check)

lemma optimizer_init: "learning_rate (optimizer (LRDecay_init opt rate p m)) = learning_rate opt"
  by (simp add: LRDecay_init_def initialize_def)

lemma improves_init:
  "improves (LRDecay_init opt rate p m) v
   \<longleftrightarrow> (if m = ''loss'' then fless v (Float (10 ^ 10)) else fless (Float (- (10 ^ 10))) v)"
  by (cases v) (auto simp: improves_def init_fields)

text \<open>
  Claim C2, as amended. For every patience \<open>p \<ge> 1\<close> and every constant sequence of a value
  \<open>v\<close> of length \<open>n \<ge> p\<close> fed one at a time to \<open>check\<close> on a freshly initialised object,
  the learning rate (the object's and the optimizer's) is multiplied by \<open>decay_rate\<close> exactly
  \<open>floor((n - 1) / p)\<close> times when the first value improves on the initial best value
  (\<open>v < 1e10\<close> for "loss", \<open>v > -1e10\<close> otherwise), since that first call resets the counter
  instead of counting, and exactly \<open>floor(n / p)\<close> times otherwise (a value that is NaN
  never improves).
\<close>

theorem constant_sequence_decays:
  assumes "1 \<le> p" and "nat p \<le> n"
  shows "let d = LRDecay_init opt rate p m;
             k = (if (if m = ''loss'' then fless v (Float (10 ^ 10))
                      else fless (Float (- (10 ^ 10))) v)
                  then (n - 1) div nat p else n div nat p)
         in num_decays d (replicate n v) = k
            \<and> lr (check_all d (replicate n v)) = learning_rate opt * rate ^ k
            \<and> learning_rate (optimizer (check_all d (replicate n v))) = learning_rate opt * rate ^ k"
proof -
  let ?d = "LRDecay_init opt rate p m"
  have n: "n = Suc (n - 1)" using assms by linarith
  have k: "num_decays ?d (replicate n v)
           = (if improves ?d v then (n - 1) div nat p else n div nat p)"
  proof (cases "improves ?d v")
    case True
    have "num_decays ?d (replicate (Suc (n - 1)) v) = (n - 1) div nat (patience ?d)"
      using True assms by (intro num_decays_improves) (simp_all add: init_fields)
    with n True show ?thesis by (simp add: init_fields)
  next
    case False
    have "num_decays ?d (replicate n v) = (nat (index ?d) + n) div nat (patience ?d)"
      using False assms by (intro num_decays_stagnant) (simp_all add: init_fields)
    with False show ?thesis by (simp add: init_fields)
  qed
  have o: "learning_rate (optimizer (check_all ?d (replicate n v))) = lr (check_all ?d (replicate n v))"
    by (rule optimizer_check_all) (simp add: optimizer_init init_fields)
  show ?thesis unfolding Let_def o using k lr_check_all [of ?d "replicate n v"]
    by (simp add: init_fields improves_init)
qed

theorem constant_sequence_decays_witness:
  "num_decays (LRDecay_init \<lparr>learning_rate = 1 / 1000\<rparr> (3 / 10) 3 ''loss'') (replicate 7 (Float (1 / 2))) = 2
   \<and> lr (check_all (LRDecay_init \<lparr>learning_rate = 1 / 1000\<rparr> (3 / 10) 3 ''loss'')
            (replicate 7 (Float (1 / 2)))) = 9 / 100000"
proof -
  have h1: "(1::int) \<le> 3" by simp
  have h2: "nat 3 \<le> (7::nat)" by simp
  have k: "(7 - 1) div nat 3 = (2::nat)" by simp
  have c: "fless (Float (1 / 2)) (Float (10 ^ 10))" by simp
  show ?thesis
    using constant_sequence_decays [OF h1 h2, of "\<lparr>learning_rate = 1 / 1000\<rparr>" "3 / 10" "''loss''" "Float (1 / 2)"]
    unfolding Let_def k by (simp add: c power2_eq_square)
qed

text \<open>
  The claim as stated fails: with patience 3 the loss sequence \<open>[0.5, 0.5, 0.5]\<close> causes no
  decay, where \<open>floor(3 / 3) = 1\<close>.
\<close>

theorem constant_sequence_decays_counterexample:
  "num_decays (LRDecay_init \<lparr>learning_rate = 1 / 1000\<rparr> (3 / 10) 3 ''loss'') [Float (1 / 2), Float (1 / 2), Float (1 / 2)]
     \<noteq> 3 div nat 3
   \<and> lr (check_all (LRDecay_init \<lparr>learning_rate = 1 / 1000\<rparr> (3 / 10) 3 ''loss'')
            [Float (1 / 2), Float (1 / 2), Float (1 / 2)]) = 1 / 1000"
  by (simp add: LRDecay_init_def initialize_def check_def status_def
        decay_learning_rate_def Let_def)

text \<open>
  Claim C4, as amended. After initialization the best value so far is the finite sentinel
  \<open>1e10\<close> for the metric "loss", with sign \<open>1\<close>, so that every first value strictly below
  \<open>1e10\<close> counts as an improvement; for any other metric it is \<open>-1e10\<close>, with sign \<open>-1\<close>, so
  that every first value strictly above \<open>-1e10\<close> counts as an improvement.
\<close>

theorem initialize_best_val:
  "best_val (LRDecay_init opt rate p ''loss'') = Float (10 ^ 10)
   \<and> sign (LRDecay_init opt rate p ''loss'') = 1
   \<and> (\<forall>v. fless v (Float (10 ^ 10)) \<longrightarrow>
          status (LRDecay_init opt rate p ''loss'') v
          = (False, (LRDecay_init opt rate p ''loss'')\<lparr>best_val := v, index := 0\<rparr>))
   \<and> (m \<noteq> ''loss'' \<longrightarrow>
          best_val (LRDecay_init opt rate p m) = Float (- (10 ^ 10))
        \<and> sign (LRDecay_init opt rate p m) = - 1
        \<and> (\<forall>v. fless (Float (- (10 ^ 10))) v \<longrightarrow>
              status (LRDecay_init opt rate p m) v
              = (False, (LRDecay_init opt rate p m)\<lparr>best_val := v, index := 0\<rparr>)))"
  by (simp add: status_improves improves_init init_fields)

theorem initialize_best_val_witness:
  "best_val (LRDecay_init \<lparr>learning_rate = 1 / 1000\<rparr> (3 / 10) 3 ''auroc'') = Float (- (10 ^ 10))
   \<and> fst (status (LRDecay_init \<lparr>learning_rate = 1 / 1000\<rparr> (3 / 10) 3 ''loss'') (Float (7 / 10))) = False
   \<and> best_val (snd (status (LRDecay_init \<lparr>learning_rate = 1 / 1000\<rparr> (3 / 10) 3 ''loss'')
                         (Float (7 / 10)))) = Float (7 / 10)
   \<and> best_val (snd (status (LRDecay_init \<lparr>learning_rate = 1 / 1000\<rparr> (3 / 10) 3 ''auroc'')
                         (Float (7 / 10)))) = Float (7 / 10)"
  using initialize_best_val [of "\<lparr>learning_rate = 1 / 1000\<rparr>" "3 / 10" 3 "''auroc''"]
  by simp

text \<open>
  The claim as stated fails: the finite first loss \<open>2e10\<close> is not an improvement; the best
  value stays \<open>1e10\<close> and the counter goes to 1.
\<close>

theorem initialize_best_val_counterexample:
  "best_val (snd (status (LRDecay_init \<lparr>learning_rate = 1 / 1000\<rparr> (3 / 10) 3 ''loss'')
                      (Float (2 * 10 ^ 10))))
     = Float (10 ^ 10)
   \<and> index (snd (status (LRDecay_init \<lparr>learning_rate = 1 / 1000\<rparr> (3 / 10) 3 ''loss'')
                    (Float (2 * 10 ^ 10))))
     = 1"
  by (simp add: LRDecay_init_def initialize_def status_def Let_def)

section \<open>Properties of MonitorMetrics and TrainMetrics\<close>

subsection \<open>The store after construction\<close>

lemma map_of_metric_step:
  "map_of (if c then AList.update b [] (AList.update a [] v) else v) k =
     (if c \<and> (k = a \<or> k = b) then Some [] else map_of v k)"
  by (simp add: update_conv')

lemma map_of_loss_step:
  "map_of (AList.update ''loss'' [] []) k = (if k = ''loss'' then Some [] else None)"
  by simp

lemma if_same_collapse: "(if A then s else if B then s else t) = (if A \<or> B then s else t)"
  by simp

lemma map_of_init:
  "map_of (value (MonitorMetrics_init names)) k =
     (if ''mse'' \<in> set names \<and> (k = ''mse'' \<or> k = ''mse_std'')
         \<or> ''mcc'' \<in> set names \<and> (k = ''mcc'' \<or> k = ''mcc_std'')
         \<or> ''corr'' \<in> set names \<and> (k = ''corr'' \<or> k = ''corr_std'')
         \<or> ''aupr'' \<in> set names \<and> (k = ''aupr'' \<or> k = ''aupr_std'')
         \<or> ''auroc'' \<in> set names \<and> (k = ''auroc'' \<or> k = ''auroc_std'')
         \<or> ''acc'' \<in> set names \<and> (k = ''acc'' \<or> k = ''acc_std'')
         \<or> k = ''loss''
      then Some [] else None)"
  unfolding MonitorMetrics_init_def initialize_metrics_def Let_def
  by (simp only: map_of_metric_step map_of_loss_step MonitorMetrics.select_convs
        MonitorMetrics.update_convs if_same_collapse)

lemma tracked_iff:
  "n \<in> set (tracked names) \<longleftrightarrow> n = ''loss'' \<or> n \<in> set recognized \<and> n \<in> set names"
  unfolding tracked_def by (simp del: filter.simps)

lemma recognized_iff:
  "n \<in> set recognized \<longleftrightarrow>
   n = ''acc'' \<or> n = ''auroc'' \<or> n = ''aupr'' \<or> n = ''corr'' \<or> n = ''mcc'' \<or> n = ''mse''"
  by (simp add: recognized_def)

lemma recognized_not_loss: "n \<in> set recognized \<Longrightarrow> n \<noteq> ''loss''"
  unfolding recognized_iff by (elim disjE; simp)

lemma std_not_loss: "n @ ''_std'' \<noteq> ''loss''"
proof
  assume e: "n @ ''_std'' = ''loss''"
  then have "length (n @ ''_std'') = length ''loss''" by (rule arg_cong)
  then have "n = []" by simp
  with e show False by simp
qed

lemma std_not_recognized: "k \<in> set recognized \<Longrightarrow> n @ ''_std'' \<noteq> k"
proof
  assume k: "k \<in> set recognized" and e: "n @ ''_std'' = k"
  have "last (n @ ''_std'') = CHR ''d''" by simp
  then have "last k = CHR ''d''" using e by simp
  then show False using k unfolding recognized_iff by (elim disjE; simp)
qed

lemma std_not_tracked: "k \<in> set (tracked names) \<Longrightarrow> n @ ''_std'' \<noteq> k"
  unfolding tracked_iff using std_not_loss std_not_recognized by blast

lemma init_recognized:
  "n \<in> set recognized \<Longrightarrow> n \<in> set names \<Longrightarrow>
   map_of (value (MonitorMetrics_init names)) n = Some []
   \<and> map_of (value (MonitorMetrics_init names)) (n @ ''_std'') = Some []"
  unfolding recognized_iff by (elim disjE; simp add: map_of_init)

lemma init_tracked:
  assumes "n \<in> set (tracked names)"
  shows "map_of (value (MonitorMetrics_init names)) n = Some []"
proof (cases "n = ''loss''")
  case True
  then show ?thesis by (simp add: map_of_init)
next
  case False
  with assms have "n \<in> set recognized" "n \<in> set names" by (simp_all add: tracked_iff)
  then show ?thesis using init_recognized by blast
qed

lemma init_tracked_std:
  assumes "n \<in> set (tracked names)" and "n \<noteq> ''loss''"
  shows "map_of (value (MonitorMetrics_init names)) (n @ ''_std'') = Some []"
proof -
  from assms have "n \<in> set recognized" "n \<in> set names" by (simp_all add: tracked_iff)
  then show ?thesis using init_recognized by blast
qed

lemma tracked_or_std:
  assumes "a \<in> set recognized" and "a \<in> set names" and "k = a \<or> k = a @ ''_std''"
  shows "k \<in> set (tracked names) \<or> (\<exists>n \<in> set (tracked names). n \<noteq> ''loss'' \<and> k = n @ ''_std'')"
proof -
  have t: "a \<in> set (tracked names)" using assms by (simp add: tracked_iff)
  have "a \<noteq> ''loss''" using assms(1) by (rule recognized_not_loss)
  with t assms(3) show ?thesis by blast
qed

lemma init_Some:
  assumes "map_of (value (MonitorMetrics_init names)) k = Some h"
  shows "h = [] \<and> (k \<in> set (tracked names)
                  \<or> (\<exists>n \<in> set (tracked names). n \<noteq> ''loss'' \<and> k = n @ ''_std''))"
proof -
  let ?G = "k \<in> set (tracked names) \<or> (\<exists>n \<in> set (tracked names). n \<noteq> ''loss'' \<and> k = n @ ''_std'')"
  have h: "h = []" using assms unfolding map_of_init by (simp split: if_splits)
  have r: "''mse'' \<in> set recognized" "''mcc'' \<in> set recognized" "''corr'' \<in> set recognized"
    "''aupr'' \<in> set recognized" "''auroc'' \<in> set recognized" "''acc'' \<in> set recognized"
    by (simp_all add: recognized_def)
  have d: "''mse'' \<in> set names \<and> (k = ''mse'' \<or> k = ''mse'' @ ''_std'')
         \<or> ''mcc'' \<in> set names \<and> (k = ''mcc'' \<or> k = ''mcc'' @ ''_std'')
         \<or> ''corr'' \<in> set names \<and> (k = ''corr'' \<or> k = ''corr'' @ ''_std'')
         \<or> ''aupr'' \<in> set names \<and> (k = ''aupr'' \<or> k = ''aupr'' @ ''_std'')
         \<or> ''auroc'' \<in> set names \<and> (k = ''auroc'' \<or> k = ''auroc'' @ ''_std'')
         \<or> ''acc'' \<in> set names \<and> (k = ''acc'' \<or> k = ''acc'' @ ''_std'')
         \<or> k = ''loss''"
    using assms unfolding map_of_init by (simp split: if_splits)
  have l: "k = ''loss'' \<Longrightarrow> ?G" by (simp add: tracked_iff)
  from d have ?G
    by (elim disjE conjE) (rule tracked_or_std [OF r(1)] tracked_or_std [OF r(2)]
      tracked_or_std [OF r(3)] tracked_or_std [OF r(4)] tracked_or_std [OF r(5)]
      tracked_or_std [OF r(6)] l; simp)+
  with h show ?thesis by simp
qed

subsection \<open>One call and a sequence of calls of update\<close>

lemma std_not_self: "n @ ''_std'' \<noteq> n"
  by simp

lemma update_Cons:
  "MonitorMetrics_update nm ns m ((n, x) # kw) =
     (case map_of (value m) n of
        None \<Rightarrow> Inl (KeyError n, m)
      | Some h \<Rightarrow>
          if n \<noteq> ''loss''
          then (case map_of (value m) (n @ ''_std'') of
                  None \<Rightarrow> Inl (KeyError (n @ ''_std''),
                              m\<lparr>value := AList.update n (h @ [nm x]) (value m)\<rparr>)
                | Some hs \<Rightarrow>
                    MonitorMetrics_update nm ns
                      (m\<lparr>value := AList.update (n @ ''_std'') (hs @ [ns x])
                                     (AList.update n (h @ [nm x]) (value m))\<rparr>) kw)
          else MonitorMetrics_update nm ns (m\<lparr>value := AList.update n (h @ [nm x]) (value m)\<rparr>) kw)"
  by (simp add: Let_def update_conv' split: option.splits)

lemma store_left_simps [simp]:
  "store_left (Inl (e, s)) = s" "store_left (Inr s) = s"
  by (simp_all add: store_left_def)

lemma update_left_dom:
  "(map_of (value (store_left (MonitorMetrics_update nm ns m kw))) k = None)
   = (map_of (value m) k = None)"
proof (induction kw arbitrary: m)
  case Nil
  then show ?case by simp
next
  case (Cons p kw)
  obtain n x where p: "p = (n, x)" by (cases p)
  show ?case
  proof (cases "map_of (value m) n")
    case None
    then show ?thesis unfolding p update_Cons by simp
  next
    case (Some h)
    show ?thesis
    proof (cases "n = ''loss''")
      case True
      then show ?thesis unfolding p update_Cons using Some Cons.IH
        by (auto simp: update_conv')
    next
      case False
      show ?thesis
      proof (cases "map_of (value m) (n @ ''_std'')")
        case None
        then show ?thesis unfolding p update_Cons using Some False
          by (auto simp: update_conv')
      next
        case (Some hs)
        then show ?thesis unfolding p update_Cons using \<open>map_of (value m) n = Some h\<close> False Cons.IH
          by (auto simp: update_conv')
      qed
    qed
  qed
qed

lemma update_dom:
  "MonitorMetrics_update nm ns m kw = Inr m' \<Longrightarrow>
   (map_of (value m') k = None) = (map_of (value m) k = None)"
  using update_left_dom [of nm ns m kw k] by simp

lemma update_left_length:
  "distinct (map fst kw) \<Longrightarrow> \<forall>n. n @ ''_std'' \<noteq> k \<Longrightarrow> map_of (value m) k = Some hk \<Longrightarrow>
   \<exists>h'. map_of (value (store_left (MonitorMetrics_update nm ns m kw))) k = Some h'
        \<and> length hk \<le> length h'
        \<and> length h' \<le> length hk + (if k \<in> fst ` set kw then 1 else 0)
        \<and> ((\<exists>m'. MonitorMetrics_update nm ns m kw = Inr m')
             \<longrightarrow> length h' = length hk + (if k \<in> fst ` set kw then 1 else 0))"
proof (induction kw arbitrary: m hk)
  case Nil
  then show ?case by simp
next
  case (Cons p kw)
  obtain n x where p: "p = (n, x)" by (cases p)
  have nk: "n @ ''_std'' \<noteq> k" using Cons.prems(2) by simp
  have d: "distinct (map fst kw)" and nin: "n \<notin> fst ` set kw" using Cons.prems(1) p by auto
  show ?case
  proof (cases "map_of (value m) n")
    case None
    then have "k \<noteq> n" using Cons.prems(3) by auto
    with None Cons.prems(3) show ?thesis unfolding p update_Cons by simp
  next
    case (Some h)
    note hn = Some
    let ?m1 = "m\<lparr>value := AList.update n (h @ [nm x]) (value m)\<rparr>"
    have look1: "map_of (value ?m1) k = Some (if k = n then hk @ [nm x] else hk)"
      using hn Cons.prems(3) by (auto simp: update_conv')
    show ?thesis
    proof (cases "n = ''loss''")
      case True
      have step: "MonitorMetrics_update nm ns m (p # kw) = MonitorMetrics_update nm ns ?m1 kw"
        unfolding p update_Cons using hn True by simp
      from Cons.IH [OF d Cons.prems(2) look1] obtain h' where
        "map_of (value (store_left (MonitorMetrics_update nm ns ?m1 kw))) k = Some h'"
        "length (if k = n then hk @ [nm x] else hk) \<le> length h'"
        "length h' \<le> length (if k = n then hk @ [nm x] else hk) + (if k \<in> fst ` set kw then 1 else 0)"
        "(\<exists>m'. MonitorMetrics_update nm ns ?m1 kw = Inr m')
           \<longrightarrow> length h' = length (if k = n then hk @ [nm x] else hk)
                          + (if k \<in> fst ` set kw then 1 else 0)"
        by blast
      then show ?thesis unfolding step using nin by (cases "k = n") (simp_all add: p)
    next
      case False
      show ?thesis
      proof (cases "map_of (value m) (n @ ''_std'')")
        case None
        have "MonitorMetrics_update nm ns m (p # kw) = Inl (KeyError (n @ ''_std''), ?m1)"
          unfolding p update_Cons using hn False None by simp
        then show ?thesis using look1 by (cases "k = n") (simp_all add: p)
      next
        case (Some hs)
        let ?m2 = "m\<lparr>value := AList.update (n @ ''_std'') (hs @ [ns x])
                               (AList.update n (h @ [nm x]) (value m))\<rparr>"
        have step: "MonitorMetrics_update nm ns m (p # kw) = MonitorMetrics_update nm ns ?m2 kw"
          unfolding p update_Cons using hn False Some by simp
        have look2: "map_of (value ?m2) k = Some (if k = n then hk @ [nm x] else hk)"
          using hn Some nk Cons.prems(3) by (auto simp: update_conv')
        from Cons.IH [OF d Cons.prems(2) look2] obtain h' where
          "map_of (value (store_left (MonitorMetrics_update nm ns ?m2 kw))) k = Some h'"
          "length (if k = n then hk @ [nm x] else hk) \<le> length h'"
          "length h' \<le> length (if k = n then hk @ [nm x] else hk) + (if k \<in> fst ` set kw then 1 else 0)"
          "(\<exists>m'. MonitorMetrics_update nm ns ?m2 kw = Inr m')
             \<longrightarrow> length h' = length (if k = n then hk @ [nm x] else hk)
                            + (if k \<in> fst ` set kw then 1 else 0)"
          by blast
        then show ?thesis unfolding step using nin by (cases "k = n") (simp_all add: p)
      qed
    qed
  qed
qed

lemma update_succeeds:
  "\<forall>n \<in> fst ` set kw. map_of (value m) n \<noteq> None
      \<and> (n \<noteq> ''loss'' \<longrightarrow> map_of (value m) (n @ ''_std'') \<noteq> None) \<Longrightarrow>
   \<exists>m'. MonitorMetrics_update nm ns m kw = Inr m'"
proof (induction kw arbitrary: m)
  case Nil
  then show ?case by simp
next
  case (Cons p kw)
  obtain n x where p: "p = (n, x)" by (cases p)
  from Cons.prems obtain h where h: "map_of (value m) n = Some h" using p by auto
  show ?case
  proof (cases "n = ''loss''")
    case True
    let ?m1 = "m\<lparr>value := AList.update n (h @ [nm x]) (value m)\<rparr>"
    have "\<exists>m'. MonitorMetrics_update nm ns ?m1 kw = Inr m'"
      using Cons.prems by (intro Cons.IH) (auto simp: update_conv')
    then show ?thesis unfolding p update_Cons using h True by simp
  next
    case False
    from Cons.prems obtain hs where hs: "map_of (value m) (n @ ''_std'') = Some hs"
      using p False by auto
    let ?m2 = "m\<lparr>value := AList.update (n @ ''_std'') (hs @ [ns x])
                               (AList.update n (h @ [nm x]) (value m))\<rparr>"
    have "\<exists>m'. MonitorMetrics_update nm ns ?m2 kw = Inr m'"
      using Cons.prems by (intro Cons.IH) (auto simp: update_conv')
    then show ?thesis unfolding p update_Cons using h hs False by simp
  qed
qed

lemma update_raises:
  "(name, v) \<in> set kw \<Longrightarrow>
   map_of (value m) name = None
     \<or> (name \<noteq> ''loss'' \<and> map_of (value m) (name @ ''_std'') = None) \<Longrightarrow>
   \<exists>k s. map_of (value m) k = None \<and> MonitorMetrics_update nm ns m kw = Inl (KeyError k, s)"
proof (induction kw arbitrary: m)
  case Nil
  then show ?case by simp
next
  case (Cons p kw)
  obtain n x where p: "p = (n, x)" by (cases p)
  show ?case
  proof (cases "map_of (value m) n")
    case None
    then show ?thesis unfolding p update_Cons by auto
  next
    case (Some h)
    show ?thesis
    proof (cases "n \<noteq> ''loss'' \<and> map_of (value m) (n @ ''_std'') = None")
      case True
      then show ?thesis unfolding p update_Cons using Some by auto
    next
      case False
      then have tail: "(name, v) \<in> set kw" using Cons.prems Some p by auto
      define m2 where "m2 = (if n \<noteq> ''loss''
          then m\<lparr>value := AList.update (n @ ''_std'') (the (map_of (value m) (n @ ''_std'')) @ [ns x])
                                     (AList.update n (h @ [nm x]) (value m))\<rparr>
          else m\<lparr>value := AList.update n (h @ [nm x]) (value m)\<rparr>)"
      have step: "MonitorMetrics_update nm ns m (p # kw) = MonitorMetrics_update nm ns m2 kw"
        unfolding p update_Cons m2_def using Some False by auto
      have dom: "\<And>k. (map_of (value m2) k = None) = (map_of (value m) k = None)"
        unfolding m2_def using Some False by (auto simp: update_conv')
      have "\<exists>k s. map_of (value m2) k = None
                 \<and> MonitorMetrics_update nm ns m2 kw = Inl (KeyError k, s)"
        using tail Cons.prems(2) by (intro Cons.IH) (simp_all add: dom)
      then show ?thesis unfolding step dom .
    qed
  qed
qed

lemma update_all_Cons_left:
  "store_left (update_all nm ns m (kw # calls))
   = (case MonitorMetrics_update nm ns m kw of
        Inl (e, s) \<Rightarrow> s
      | Inr m1 \<Rightarrow> store_left (update_all nm ns m1 calls))"
  by (auto split: sum.splits)

lemma update_all_left_dom:
  "(map_of (value (store_left (update_all nm ns m calls))) k = None)
   = (map_of (value m) k = None)"
proof (induction calls arbitrary: m)
  case Nil
  then show ?case by simp
next
  case (Cons kw calls)
  show ?case
  proof (cases "MonitorMetrics_update nm ns m kw")
    case (Inl es)
    then show ?thesis using update_left_dom [of nm ns m kw k]
      by (cases es) (simp add: update_all_Cons_left)
  next
    case (Inr m1)
    then show ?thesis using update_left_dom [of nm ns m kw k] Cons.IH [of m1]
      by (simp add: update_all_Cons_left)
  qed
qed

lemma update_all_dom:
  "update_all nm ns m calls = Inr m' \<Longrightarrow>
   (map_of (value m') k = None) = (map_of (value m) k = None)"
  using update_all_left_dom [of nm ns m calls k] by simp

lemma update_all_succeeds:
  "\<forall>kw \<in> set calls. \<forall>n \<in> fst ` set kw. map_of (value m) n \<noteq> None
      \<and> (n \<noteq> ''loss'' \<longrightarrow> map_of (value m) (n @ ''_std'') \<noteq> None) \<Longrightarrow>
   \<exists>m'. update_all nm ns m calls = Inr m'"
proof (induction calls arbitrary: m)
  case Nil
  then show ?case by simp
next
  case (Cons kw calls)
  have "\<exists>m1. MonitorMetrics_update nm ns m kw = Inr m1"
    using Cons.prems by (intro update_succeeds) simp
  then obtain m1 where m1: "MonitorMetrics_update nm ns m kw = Inr m1" ..
  have "\<exists>m'. update_all nm ns m1 calls = Inr m'"
    using Cons.prems by (intro Cons.IH) (simp add: update_dom [OF m1])
  then show ?case using m1 by simp
qed

lemma update_all_left_length:
  "\<forall>kw \<in> set calls. distinct (map fst kw) \<Longrightarrow> \<forall>n. n @ ''_std'' \<noteq> k \<Longrightarrow>
   map_of (value m) k = Some hk \<Longrightarrow>
   \<exists>h'. map_of (value (store_left (update_all nm ns m calls))) k = Some h'
        \<and> length h' \<le> length hk + calls_naming k calls
        \<and> ((\<exists>m'. update_all nm ns m calls = Inr m') \<longrightarrow> length h' = length hk + calls_naming k calls)"
proof (induction calls arbitrary: m hk)
  case Nil
  then show ?case by (simp add: calls_naming_def)
next
  case (Cons kw calls)
  have cn: "calls_naming k (kw # calls) = (if k \<in> fst ` set kw then 1 else 0) + calls_naming k calls"
    by (simp add: calls_naming_def)
  from update_left_length [of kw k m hk nm ns] Cons.prems obtain h1 where
    h1: "map_of (value (store_left (MonitorMetrics_update nm ns m kw))) k = Some h1"
    and l1: "length h1 \<le> length hk + (if k \<in> fst ` set kw then 1 else 0)"
    and e1: "(\<exists>m'. MonitorMetrics_update nm ns m kw = Inr m')
             \<longrightarrow> length h1 = length hk + (if k \<in> fst ` set kw then 1 else 0)"
    by auto
  show ?case
  proof (cases "MonitorMetrics_update nm ns m kw")
    case (Inl es)
    obtain e s where es: "es = (e, s)" by (cases es)
    have "update_all nm ns m (kw # calls) = Inl (e, s)" using Inl es by simp
    then show ?thesis using h1 l1 Inl es unfolding cn by simp
  next
    case (Inr m1)
    have h1': "map_of (value m1) k = Some h1" using h1 Inr by simp
    have "\<forall>kw \<in> set calls. distinct (map fst kw)" using Cons.prems(1) by simp
    from Cons.IH [OF this Cons.prems(2) h1'] obtain h' where
      h': "map_of (value (store_left (update_all nm ns m1 calls))) k = Some h'"
      "length h' \<le> length h1 + calls_naming k calls"
      "(\<exists>m'. update_all nm ns m1 calls = Inr m') \<longrightarrow> length h' = length h1 + calls_naming k calls"
      by blast
    have "length h1 = length hk + (if k \<in> fst ` set kw then 1 else 0)" using e1 Inr by simp
    with h' Inr show ?thesis unfolding cn by simp
  qed
qed

lemma update_returns_known:
  assumes "MonitorMetrics_update nm ns m kw = Inr m'" and "n \<in> fst ` set kw"
  shows "map_of (value m) n \<noteq> None \<and> (n \<noteq> ''loss'' \<longrightarrow> map_of (value m) (n @ ''_std'') \<noteq> None)"
proof (rule ccontr)
  assume "\<not> ?thesis"
  then have c: "map_of (value m) n = None
                \<or> (n \<noteq> ''loss'' \<and> map_of (value m) (n @ ''_std'') = None)" by blast
  from assms(2) obtain v where "(n, v) \<in> set kw" by auto
  from update_raises [OF this c, of nm ns] assms(1) show False by auto
qed

lemma update_all_returns_known:
  "update_all nm ns m calls = Inr m' \<Longrightarrow> kw \<in> set calls \<Longrightarrow> n \<in> fst ` set kw \<Longrightarrow>
   map_of (value m) n \<noteq> None \<and> (n \<noteq> ''loss'' \<longrightarrow> map_of (value m) (n @ ''_std'') \<noteq> None)"
proof (induction calls arbitrary: m)
  case Nil
  then show ?case by simp
next
  case (Cons c calls)
  from Cons.prems(1) obtain m1 where m1: "MonitorMetrics_update nm ns m c = Inr m1"
    and rest: "update_all nm ns m1 calls = Inr m'"
    by (auto split: sum.splits)
  show ?case
  proof (cases "kw = c")
    case True
    with m1 Cons.prems(3) show ?thesis using update_returns_known by blast
  next
    case False
    with Cons.prems(2) have "kw \<in> set calls" by simp
    from Cons.IH [OF rest this Cons.prems(3)] show ?thesis
      using update_dom [OF m1] by simp
  qed
qed

lemma init_known_tracked:
  assumes "map_of (value (MonitorMetrics_init names)) n \<noteq> None"
    and "n \<noteq> ''loss'' \<longrightarrow> map_of (value (MonitorMetrics_init names)) (n @ ''_std'') \<noteq> None"
  shows "n \<in> set (tracked names)"
proof (rule ccontr)
  assume nt: "n \<notin> set (tracked names)"
  from assms(1) obtain h where "map_of (value (MonitorMetrics_init names)) n = Some h" by auto
  from init_Some [OF this] nt obtain a where a: "a \<in> set (tracked names)" "n = a @ ''_std''"
    by blast
  then have "n \<noteq> ''loss''" using std_not_loss by simp
  with assms(2) obtain h' where "map_of (value (MonitorMetrics_init names)) (n @ ''_std'') = Some h'"
    by auto
  from init_Some [OF this] have "n \<in> set (tracked names)"
    using std_not_tracked by auto
  with nt show False by simp
qed

lemma update_all_returns_iff:
  "(\<exists>m. update_all nm ns (MonitorMetrics_init names) calls = Inr m)
   \<longleftrightarrow> (\<forall>kw \<in> set calls. fst ` set kw \<subseteq> set (tracked names))"
proof
  assume "\<exists>m. update_all nm ns (MonitorMetrics_init names) calls = Inr m"
  then obtain m where run: "update_all nm ns (MonitorMetrics_init names) calls = Inr m" ..
  show "\<forall>kw \<in> set calls. fst ` set kw \<subseteq> set (tracked names)"
  proof (intro ballI subsetI)
    fix kw n assume "kw \<in> set calls" "n \<in> fst ` set kw"
    from update_all_returns_known [OF run this] show "n \<in> set (tracked names)"
      using init_known_tracked by blast
  qed
next
  assume a: "\<forall>kw \<in> set calls. fst ` set kw \<subseteq> set (tracked names)"
  show "\<exists>m. update_all nm ns (MonitorMetrics_init names) calls = Inr m"
  proof (rule update_all_succeeds, intro ballI)
    fix kw n assume "kw \<in> set calls" "n \<in> fst ` set kw"
    with a have t: "n \<in> set (tracked names)" by blast
    show "map_of (value (MonitorMetrics_init names)) n \<noteq> None
          \<and> (n \<noteq> ''loss'' \<longrightarrow> map_of (value (MonitorMetrics_init names)) (n @ ''_std'') \<noteq> None)"
      using init_tracked [OF t] init_tracked_std [OF t] by simp
  qed
qed


text \<open>
  Claim C5, as amended. For every sequence of \<open>update\<close> calls on a freshly constructed
  instance (the names of one call distinct, as keyword arguments are), the first call that
  raises ending the sequence: every call returns exactly when all calls name tracked
  metrics only, and then each tracked metric's history length equals the number of calls
  that named that metric; when a call raises, it has appended for the names before the
  missing one only, and the length is at most that number. In both cases a \<open><name>_std\<close>
  history exists for every tracked metric except "loss" and for no other name, and the
  store holds no further key.
\<close>

theorem update_history_lengths:
  assumes "\<forall>kwargs \<in> set calls. distinct (map fst kwargs)"
  shows "let r = update_all nanmean nanstd (MonitorMetrics_init names) calls; m = store_left r
         in ((\<exists>m'. r = Inr m') \<longleftrightarrow> (\<forall>kwargs \<in> set calls. fst ` set kwargs \<subseteq> set (tracked names)))
          \<and> (\<forall>n \<in> set (tracked names).
                \<exists>h. map_of (value m) n = Some h
                   \<and> length h \<le> calls_naming n calls
                   \<and> ((\<exists>m'. r = Inr m') \<longrightarrow> length h = calls_naming n calls))
          \<and> (\<forall>n. (\<exists>h. map_of (value m) (n @ ''_std'') = Some h)
                   \<longleftrightarrow> n \<in> set (tracked names) \<and> n \<noteq> ''loss'')
          \<and> (\<forall>k h. map_of (value m) k = Some h \<longrightarrow>
                k \<in> set (tracked names)
                \<or> (\<exists>n \<in> set (tracked names). n \<noteq> ''loss'' \<and> k = n @ ''_std''))"
proof -
  let ?init = "MonitorMetrics_init names"
  let ?r = "update_all nanmean nanstd ?init calls"
  let ?m = "store_left ?r"
  have dom: "\<And>k. (map_of (value ?m) k = None) = (map_of (value ?init) k = None)"
    by (rule update_all_left_dom)
  have len: "\<exists>h. map_of (value ?m) n = Some h
                 \<and> length h \<le> calls_naming n calls
                 \<and> ((\<exists>m'. ?r = Inr m') \<longrightarrow> length h = calls_naming n calls)"
    if t: "n \<in> set (tracked names)" for n
  proof -
    have "\<forall>a. a @ ''_std'' \<noteq> n" using std_not_tracked [OF t] by blast
    from update_all_left_length [OF assms this init_tracked [OF t], of nanmean nanstd]
    show ?thesis by simp
  qed
  have keys: "k \<in> set (tracked names)
              \<or> (\<exists>n \<in> set (tracked names). n \<noteq> ''loss'' \<and> k = n @ ''_std'')"
    if "map_of (value ?m) k = Some h" for k h
  proof -
    from that dom [of k] obtain h0 where "map_of (value ?init) k = Some h0" by auto
    from init_Some [OF this] show ?thesis by simp
  qed
  have std: "(\<exists>h. map_of (value ?m) (n @ ''_std'') = Some h)
             \<longleftrightarrow> n \<in> set (tracked names) \<and> n \<noteq> ''loss''" for n
  proof
    assume "\<exists>h. map_of (value ?m) (n @ ''_std'') = Some h"
    then obtain h where "map_of (value ?m) (n @ ''_std'') = Some h" ..
    from keys [OF this] show "n \<in> set (tracked names) \<and> n \<noteq> ''loss''"
      using std_not_tracked by auto
  next
    assume "n \<in> set (tracked names) \<and> n \<noteq> ''loss''"
    then have "map_of (value ?init) (n @ ''_std'') = Some []" using init_tracked_std by blast
    then show "\<exists>h. map_of (value ?m) (n @ ''_std'') = Some h" using dom [of "n @ ''_std''"] by auto
  qed
  show ?thesis unfolding Let_def using update_all_returns_iff [of nanmean nanstd names calls] len std keys
    by blast
qed

theorem update_history_lengths_witness:
  "\<exists>m. update_all scalar_nanmean scalar_nanstd (MonitorMetrics_init [''acc'', ''foo''])
          [[(''loss'', Float (9 / 10))], [(''loss'', Float (8 / 10)), (''acc'', Float (1 / 2))]] = Inr m
       \<and> (\<exists>h. map_of (value m) ''loss'' = Some h \<and> length h = 2)
       \<and> (\<exists>h. map_of (value m) ''acc'' = Some h \<and> length h = 1)
       \<and> (\<exists>h. map_of (value m) ''acc_std'' = Some h)
       \<and> map_of (value m) ''loss_std'' = None
       \<and> map_of (value m) ''foo_std'' = None"
proof -
  let ?calls = "[[(''loss'', Float (9 / 10))], [(''loss'', Float (8 / 10)), (''acc'', Float (1 / 2))]]"
  let ?names = "[''acc'', ''foo'']"
  let ?r = "update_all scalar_nanmean scalar_nanstd (MonitorMetrics_init ?names) ?calls"
  have t: "tracked ?names = [''loss'', ''acc'']" by (simp add: tracked_def recognized_def)
  have hyp: "\<forall>kwargs \<in> set ?calls. distinct (map fst kwargs)" by simp
  have named: "\<forall>kwargs \<in> set ?calls. fst ` set kwargs \<subseteq> set (tracked ?names)"
    unfolding t by simp
  have c: "calls_naming ''loss'' ?calls = 2" "calls_naming ''acc'' ?calls = 1"
    by (simp_all add: calls_naming_def)
  have tl: "''loss'' \<in> set (tracked ?names)" and ta: "''acc'' \<in> set (tracked ?names)"
    and tf: "''foo'' \<notin> set (tracked ?names)"
    unfolding t by simp_all
  have s: "''acc_std'' = ''acc'' @ ''_std''" "''loss_std'' = ''loss'' @ ''_std''"
    "''foo_std'' = ''foo'' @ ''_std''" by simp_all
  note th = update_history_lengths [OF hyp, where nanmean = scalar_nanmean
      and nanstd = scalar_nanstd and names = ?names, unfolded Let_def]
  note th1 = th [THEN conjunct1]
  note th2 = th [THEN conjunct2, THEN conjunct1]
  note th3 = th [THEN conjunct2, THEN conjunct2, THEN conjunct1]
  have ret: "\<exists>m'. ?r = Inr m'" using named by (rule th1 [THEN iffD2])
  then obtain m where run: "?r = Inr m" ..
  then have left: "store_left ?r = m" by simp
  note len = th2 [unfolded left]
  note std = th3 [unfolded left]
  from bspec [OF len tl] obtain h1 where
    h1: "map_of (value m) ''loss'' = Some h1"
        "(\<exists>m'. ?r = Inr m') \<longrightarrow> length h1 = calls_naming ''loss'' ?calls" by blast
  have 1: "\<exists>h. map_of (value m) ''loss'' = Some h \<and> length h = 2"
    using h1 ret unfolding c by blast
  from bspec [OF len ta] obtain h2 where
    h2: "map_of (value m) ''acc'' = Some h2"
        "(\<exists>m'. ?r = Inr m') \<longrightarrow> length h2 = calls_naming ''acc'' ?calls" by blast
  have 2: "\<exists>h. map_of (value m) ''acc'' = Some h \<and> length h = 1"
    using h2 ret unfolding c by blast
  have 3: "\<exists>h. map_of (value m) (''acc'' @ ''_std'') = Some h"
    using spec [OF std, of "''acc''"] ta by simp
  have 4: "map_of (value m) (''loss'' @ ''_std'') = None"
    using spec [OF std, of "''loss''"] by simp
  have 5: "map_of (value m) (''foo'' @ ''_std'') = None"
    using spec [OF std, of "''foo''"] tf by simp
  show ?thesis unfolding s using run 1 2 3 4 5 by (intro exI [of _ m] conjI)
qed

text \<open>
  The claim as stated fails: on an instance that tracks "auroc", the call
  \<open>update(foo=1, auroc=0.5)\<close> raises \<open>KeyError\<close> on "foo" before it appends anything, so the
  history of "auroc" is still empty after one call that named it.
\<close>

theorem update_history_lengths_counterexample:
  "update_all scalar_nanmean scalar_nanstd (MonitorMetrics_init [''auroc''])
     [[(''foo'', Float 1), (''auroc'', Float (1 / 2))]]
   = Inl (KeyError ''foo'', MonitorMetrics_init [''auroc''])
   \<and> map_of (value (MonitorMetrics_init [''auroc''])) ''auroc'' = Some []
   \<and> calls_naming ''auroc'' [[(''foo'', Float 1), (''auroc'', Float (1 / 2))]] = 1"
  by (simp add: map_of_init calls_naming_def)

text \<open>
  Claim C6. For every split name outside "train", "valid" and "test" and every set of
  metric values, \<open>TrainMetrics.update\<close> raises nothing and returns the object unchanged.
\<close>

theorem unknown_split_noop:
  "name \<notin> {''train'', ''valid'', ''test''} \<Longrightarrow>
   TrainMetrics_update nanmean nanstd self name kwargs = Inr self"
  by (simp add: TrainMetrics_update_def)

theorem unknown_split_noop_witness:
  "TrainMetrics_update scalar_nanmean scalar_nanstd (TrainMetrics_init [''auroc'']) ''validation''
     [(''loss'', Float (1 / 2)), (''auroc'', Float (7 / 10))] = Inr (TrainMetrics_init [''auroc''])"
  using unknown_split_noop [of "''validation''" scalar_nanmean scalar_nanstd
      "TrainMetrics_init [''auroc'']" "[(''loss'', Float (1 / 2)), (''auroc'', Float (7 / 10))]"]
  by simp

text \<open>
  Claim C7. For every metric name for which no history was created at construction time,
  after any sequence of calls that returned, a call of \<open>MonitorMetrics.update\<close> naming that
  metric raises \<open>KeyError\<close> on a key the store does not hold, and \<open>TrainMetrics.update\<close>
  hands the same error on to its caller for each of the three splits, with the split's
  object as the call left it.
\<close>

theorem update_unknown_metric_raises:
  assumes "map_of (value (MonitorMetrics_init names)) name = None"
    and "update_all nanmean nanstd (MonitorMetrics_init names) calls = Inr m"
    and "(name, v) \<in> set kwargs"
  shows "\<exists>k left. map_of (value m) k = None
           \<and> MonitorMetrics_update nanmean nanstd m kwargs = Inl (KeyError k, left)
           \<and> (\<forall>tm. TrainMetrics_update nanmean nanstd (tm\<lparr>train := m\<rparr>) ''train'' kwargs
                      = Inl (KeyError k, tm\<lparr>train := left\<rparr>)
                  \<and> TrainMetrics_update nanmean nanstd (tm\<lparr>valid := m\<rparr>) ''valid'' kwargs
                      = Inl (KeyError k, tm\<lparr>valid := left\<rparr>)
                  \<and> TrainMetrics_update nanmean nanstd (tm\<lparr>test := m\<rparr>) ''test'' kwargs
                      = Inl (KeyError k, tm\<lparr>test := left\<rparr>))"
proof -
  have "map_of (value m) name = None" using assms(1) update_all_dom [OF assms(2)] by simp
  then have "map_of (value m) name = None
               \<or> (name \<noteq> ''loss'' \<and> map_of (value m) (name @ ''_std'') = None)" ..
  from update_raises [OF assms(3) this]
  have "\<exists>k left. map_of (value m) k = None
                \<and> MonitorMetrics_update nanmean nanstd m kwargs = Inl (KeyError k, left)" .
  then show ?thesis by (auto simp: TrainMetrics_update_def)
qed

theorem update_unknown_metric_raises_witness:
  "\<exists>k left. MonitorMetrics_update scalar_nanmean scalar_nanstd (MonitorMetrics_init [''auroc''])
          [(''loss'', Float (1 / 2)), (''aupr'', Float (7 / 10))] = Inl (KeyError k, left)"
proof -
  have 1: "map_of (value (MonitorMetrics_init [''auroc''])) ''aupr'' = None"
    by (simp add: map_of_init)
  have 2: "update_all scalar_nanmean scalar_nanstd (MonitorMetrics_init [''auroc'']) []
           = Inr (MonitorMetrics_init [''auroc''])" by simp
  have 3: "(''aupr'', Float (7 / 10)) \<in> set [(''loss'', Float (1 / 2)), (''aupr'', Float (7 / 10))]"
    by simp
  from update_unknown_metric_raises [OF 1 2 3] show ?thesis by blast
qed

text \<open>
  Claim C10, as amended. When \<open>MonitorMetrics\<close> is constructed with a declared metric name
  outside the recognized set, no history is created for that name, unless the name is
  \<open><m>_std\<close> for a declared recognized metric \<open>m\<close> (then the standard-deviation history of
  \<open>m\<close> is stored under it); in every case each later \<open>update\<close> call naming it raises
  \<open>KeyError\<close>.
\<close>

theorem unrecognized_declared_metric:
  assumes "name \<in> set names" and "name \<notin> set (''loss'' # recognized)"
  shows "(map_of (value (MonitorMetrics_init names)) name = None
          \<or> (\<exists>n \<in> set recognized. n \<in> set names \<and> name = n @ ''_std''))
       \<and> (\<forall>calls m kwargs v.
             update_all nanmean nanstd (MonitorMetrics_init names) calls = Inr m
             \<and> (name, v) \<in> set kwargs
             \<longrightarrow> (\<exists>k left. MonitorMetrics_update nanmean nanstd m kwargs = Inl (KeyError k, left)))"
proof -
  let ?init = "MonitorMetrics_init names"
  have nt: "name \<notin> set (tracked names)" using assms(2) by (simp add: tracked_iff)
  have nl: "name \<noteq> ''loss''" using assms(2) by simp
  have a: "map_of (value ?init) name = None
           \<or> (\<exists>n \<in> set recognized. n \<in> set names \<and> name = n @ ''_std'')"
  proof (cases "map_of (value ?init) name")
    case None
    then show ?thesis by simp
  next
    case (Some h)
    from init_Some [OF Some] nt show ?thesis using recognized_not_loss by (auto simp: tracked_iff)
  qed
  have b: "map_of (value ?init) (name @ ''_std'') = None \<or> map_of (value ?init) name = None"
  proof (cases "map_of (value ?init) (name @ ''_std'')")
    case None
    then show ?thesis by simp
  next
    case (Some h)
    from init_Some [OF Some] have "name \<in> set (tracked names)"
      using std_not_tracked by auto
    with nt show ?thesis by simp
  qed
  have c: "\<exists>k left. MonitorMetrics_update nanmean nanstd m kwargs = Inl (KeyError k, left)"
    if run: "update_all nanmean nanstd ?init calls = Inr m" and mem: "(name, v) \<in> set kwargs"
    for calls m kwargs v
  proof -
    have "map_of (value m) name = None
          \<or> (name \<noteq> ''loss'' \<and> map_of (value m) (name @ ''_std'') = None)"
      using b nl update_all_dom [OF run] by auto
    from update_raises [OF mem this] show ?thesis by blast
  qed
  show ?thesis using a c by blast
qed

theorem unrecognized_declared_metric_witness:
  "map_of (value (MonitorMetrics_init [''loss'', ''accuracy''])) ''accuracy'' = None
   \<and> (\<exists>k left. MonitorMetrics_update scalar_nanmean scalar_nanstd
                 (MonitorMetrics_init [''loss'', ''accuracy''])
                 [(''accuracy'', Float (9 / 10))] = Inl (KeyError k, left))"
proof -
  have 1: "''accuracy'' \<in> set [''loss'', ''accuracy'']" by simp
  have 2: "''accuracy'' \<notin> set (''loss'' # recognized)" by (simp add: recognized_def)
  have 3: "\<not> (\<exists>n \<in> set recognized. n \<in> set [''loss'', ''accuracy''] \<and> ''accuracy'' = n @ ''_std'')"
    by (simp add: recognized_def)
  have 4: "update_all scalar_nanmean scalar_nanstd (MonitorMetrics_init [''loss'', ''accuracy'']) []
           = Inr (MonitorMetrics_init [''loss'', ''accuracy''])" by simp
  have 5: "(''accuracy'', Float (9 / 10)) \<in> set [(''accuracy'', Float (9 / 10))]" by simp
  from unrecognized_declared_metric [OF 1 2, of scalar_nanmean scalar_nanstd] 3 4 5
  show ?thesis by blast
qed

text \<open>
  The claim as stated fails: declared next to "acc", the name "acc_std" is outside the
  recognized set and yet has a history, the one created for the standard deviation of "acc".
\<close>

theorem unrecognized_declared_metric_counterexample:
  "''acc_std'' \<in> set [''acc'', ''acc_std'']
   \<and> ''acc_std'' \<notin> set (''loss'' # recognized)
   \<and> map_of (value (MonitorMetrics_init [''acc'', ''acc_std''])) ''acc_std'' = Some []"
  by (simp add: recognized_def map_of_init)

section \<open>Properties of the Trainer\<close>

subsection \<open>early_stopping\<close>

lemma fle_NaN [simp]: "\<not> fle NaN x" "\<not> fle x NaN"
  by (cases x; simp)+

lemma fle_refl: "x \<noteq> NaN \<Longrightarrow> fle x x"
  by (cases x) simp_all

lemma fle_trans: "fle a b \<Longrightarrow> fle b c \<Longrightarrow> fle a c"
  by (cases a; cases b; cases c) simp_all

lemma fle_antisym: "fle a b \<Longrightarrow> fle b a \<Longrightarrow> a = b"
  by (cases a; cases b) simp_all

lemma not_fle_below: "b \<noteq> NaN \<Longrightarrow> x \<noteq> NaN \<Longrightarrow> \<not> fle b x \<Longrightarrow> fle x b \<and> x \<noteq> b"
  by (cases b; cases x) simp_all

lemma fle_no_NaN: "\<forall>j<length ys. fle b (ys ! j) \<Longrightarrow> NaN \<notin> set ys"
  by (auto simp: in_set_conv_nth)

lemma fle_no_NaN': "\<forall>j<length ys. fle (ys ! j) b \<Longrightarrow> NaN \<notin> set ys"
  by (auto simp: in_set_conv_nth)

lemma argmin_scan_spec:
  "bi < i \<Longrightarrow> drop i ys = xs \<Longrightarrow> i \<le> length ys \<Longrightarrow> ys ! bi = b \<Longrightarrow>
   \<forall>j<bi. ys ! j \<noteq> b \<Longrightarrow> (b \<noteq> NaN \<longrightarrow> (\<forall>j<i. fle b (ys ! j))) \<Longrightarrow>
   best_index ''loss'' ys (argmin_scan xs i bi b)"
proof (induction xs arbitrary: i bi b)
  case Nil
  then have i: "i = length ys" by simp
  show ?case
  proof (cases "b = NaN")
    case True
    then have "NaN \<in> set ys" using Nil.prems(1,4) i by (auto simp: in_set_conv_nth)
    with True Nil.prems i show ?thesis by (simp add: best_index_def)
  next
    case False
    then have a: "\<forall>j<length ys. fle b (ys ! j)" using Nil.prems(6) i by simp
    then have "NaN \<notin> set ys" by (rule fle_no_NaN)
    with a Nil.prems i show ?thesis by (simp add: best_index_def)
  qed
next
  case (Cons x xs)
  have il: "i < length ys" using Cons.prems(2,3) by (cases "i = length ys") auto
  have x: "ys ! i = x" using Cons.prems(2) il by (metis nth_via_drop)
  have d: "drop (Suc i) ys = xs" using Cons.prems(2) by (metis drop_Suc tl_drop list.sel(3))
  show ?case
  proof (cases "b = NaN")
    case True
    have "bi < length ys" using Cons.prems(1) il by simp
    then have "ys ! bi \<in> set ys" by (rule nth_mem)
    then have "NaN \<in> set ys" using True Cons.prems(4) by simp
    with True Cons.prems il show ?thesis by (simp add: best_index_def)
  next
    case False
    note bn = False
    then have below: "\<forall>j<i. fle b (ys ! j)" using Cons.prems(6) by simp
    show ?thesis
    proof (cases "fle b x")
      case True
      have "best_index ''loss'' ys (argmin_scan xs (Suc i) bi b)"
      proof (rule Cons.IH [OF _ d _ Cons.prems(4,5)])
        show "bi < Suc i" using Cons.prems(1) by simp
        show "Suc i \<le> length ys" using il by simp
        show "b \<noteq> NaN \<longrightarrow> (\<forall>j<Suc i. fle b (ys ! j))"
          using below True x by (auto simp: less_Suc_eq)
      qed
      with True bn show ?thesis by simp
    next
      case False
      have "best_index ''loss'' ys (argmin_scan xs (Suc i) i x)"
      proof (rule Cons.IH [OF _ d _ x])
        show "i < Suc i" by simp
        show "Suc i \<le> length ys" using il by simp
        show "\<forall>j<i. ys ! j \<noteq> x"
        proof (intro allI impI notI)
          fix j assume j: "j < i" and e: "ys ! j = x"
          from below j have "fle b (ys ! j)" by simp
          with e False show False by simp
        qed
        show "x \<noteq> NaN \<longrightarrow> (\<forall>j<Suc i. fle x (ys ! j))"
        proof (intro impI allI)
          fix j assume xn: "x \<noteq> NaN" and j: "j < Suc i"
          from not_fle_below [OF bn xn False] have xb: "fle x b" by simp
          show "fle x (ys ! j)"
          proof (cases "j = i")
            case True
            then show ?thesis using x xn by (simp add: fle_refl)
          next
            case False
            with j have "j < i" by simp
            with below have "fle b (ys ! j)" by simp
            with xb show ?thesis by (rule fle_trans)
          qed
        qed
      qed
      with False bn show ?thesis by simp
    qed
  qed
qed

lemma argmax_scan_spec:
  "bi < i \<Longrightarrow> drop i ys = xs \<Longrightarrow> i \<le> length ys \<Longrightarrow> ys ! bi = b \<Longrightarrow>
   \<forall>j<bi. ys ! j \<noteq> b \<Longrightarrow> (b \<noteq> NaN \<longrightarrow> (\<forall>j<i. fle (ys ! j) b)) \<Longrightarrow>
   m \<noteq> ''loss'' \<Longrightarrow> best_index m ys (argmax_scan xs i bi b)"
proof (induction xs arbitrary: i bi b)
  case Nil
  then have i: "i = length ys" by simp
  show ?case
  proof (cases "b = NaN")
    case True
    then have "NaN \<in> set ys" using Nil.prems(1,4) i by (auto simp: in_set_conv_nth)
    with True Nil.prems i show ?thesis by (simp add: best_index_def)
  next
    case False
    then have a: "\<forall>j<length ys. fle (ys ! j) b" using Nil.prems(6) i by simp
    then have "NaN \<notin> set ys" by (rule fle_no_NaN')
    with a Nil.prems i show ?thesis by (simp add: best_index_def)
  qed
next
  case (Cons x xs)
  have il: "i < length ys" using Cons.prems(2,3) by (cases "i = length ys") auto
  have x: "ys ! i = x" using Cons.prems(2) il by (metis nth_via_drop)
  have d: "drop (Suc i) ys = xs" using Cons.prems(2) by (metis drop_Suc tl_drop list.sel(3))
  show ?case
  proof (cases "b = NaN")
    case True
    have "bi < length ys" using Cons.prems(1) il by simp
    then have "ys ! bi \<in> set ys" by (rule nth_mem)
    then have "NaN \<in> set ys" using True Cons.prems(4) by simp
    with True Cons.prems il show ?thesis by (simp add: best_index_def)
  next
    case False
    note bn = False
    then have below: "\<forall>j<i. fle (ys ! j) b" using Cons.prems(6) by simp
    show ?thesis
    proof (cases "fle x b")
      case True
      have "best_index m ys (argmax_scan xs (Suc i) bi b)"
      proof (rule Cons.IH [OF _ d _ Cons.prems(4,5) _ Cons.prems(7)])
        show "bi < Suc i" using Cons.prems(1) by simp
        show "Suc i \<le> length ys" using il by simp
        show "b \<noteq> NaN \<longrightarrow> (\<forall>j<Suc i. fle (ys ! j) b)"
          using below True x by (auto simp: less_Suc_eq)
      qed
      with True bn show ?thesis by simp
    next
      case False
      have "best_index m ys (argmax_scan xs (Suc i) i x)"
      proof (rule Cons.IH [OF _ d _ x _ _ Cons.prems(7)])
        show "i < Suc i" by simp
        show "Suc i \<le> length ys" using il by simp
        show "\<forall>j<i. ys ! j \<noteq> x"
        proof (intro allI impI notI)
          fix j assume j: "j < i" and e: "ys ! j = x"
          from below j have "fle (ys ! j) b" by simp
          with e False show False by simp
        qed
        show "x \<noteq> NaN \<longrightarrow> (\<forall>j<Suc i. fle (ys ! j) x)"
        proof (intro impI allI)
          fix j assume xn: "x \<noteq> NaN" and j: "j < Suc i"
          have bx: "fle b x" using bn xn False by (cases b; cases x) simp_all
          show "fle (ys ! j) x"
          proof (cases "j = i")
            case True
            then show ?thesis using x xn by (simp add: fle_refl)
          next
            case False
            with j have "j < i" by simp
            with below have "fle (ys ! j) b" by simp
            then show ?thesis using bx by (rule fle_trans)
          qed
        qed
      qed
      with False bn show ?thesis by simp
    qed
  qed
qed

lemma np_argmin_spec:
  assumes "vals \<noteq> []"
  shows "\<exists>i. np_argmin vals = Inr i \<and> best_index ''loss'' vals i"
proof -
  from assms obtain x xs where v: "vals = x # xs" by (cases vals) auto
  have "best_index ''loss'' vals (argmin_scan xs 1 0 x)"
    by (rule argmin_scan_spec) (simp_all add: v fle_refl)
  then show ?thesis by (simp add: np_argmin_def v)
qed

lemma np_argmax_spec:
  assumes "vals \<noteq> []" and "m \<noteq> ''loss''"
  shows "\<exists>i. np_argmax vals = Inr i \<and> best_index m vals i"
proof -
  from assms obtain x xs where v: "vals = x # xs" by (cases vals) auto
  have "best_index m vals (argmax_scan xs 1 0 x)"
    by (rule argmax_scan_spec) (simp_all add: v fle_refl assms(2))
  then show ?thesis by (simp add: np_argmax_def v)
qed

lemma best_index_unique:
  assumes "best_index m vals i" and "best_index m vals j"
  shows "i = j"
proof -
  have eq: "vals ! i = vals ! j"
  proof (cases "NaN \<in> set vals")
    case True
    with assms show ?thesis by (simp add: best_index_def)
  next
    case False
    with assms have "fle (vals ! i) (vals ! j)" "fle (vals ! j) (vals ! i)"
      by (auto simp: best_index_def split: if_splits)
    then show ?thesis by (rule fle_antisym)
  qed
  have "\<not> i < j" using assms(2) eq by (auto simp: best_index_def)
  moreover have "\<not> j < i" using assms(1) eq by (auto simp: best_index_def)
  ultimately show ?thesis by simp
qed

lemma early_stopping_general:
  assumes "map_of (value (valid (metrics self))) metric_name = Some vals" and "vals \<noteq> []"
  shows "\<exists>i. best_index metric_name vals i
            \<and> early_stopping self metric_name p = Inr (p - int (length vals - 1 - i) \<le> 0)"
proof (cases "metric_name = ''loss''")
  case True
  from np_argmin_spec [OF assms(2)] obtain i where i: "np_argmin vals = Inr i"
    "best_index ''loss'' vals i" by blast
  then have "i < length vals" by (simp add: best_index_def)
  then have "int (length vals) - int i - 1 = int (length vals - 1 - i)" by linarith
  then have "early_stopping self metric_name p = Inr (p - int (length vals - 1 - i) \<le> 0)"
    using assms(1) True i(1) by (simp add: early_stopping_def)
  with i True show ?thesis by auto
next
  case False
  from np_argmax_spec [OF assms(2) False] obtain i where i: "np_argmax vals = Inr i"
    "best_index metric_name vals i" by blast
  then have "i < length vals" by (simp add: best_index_def)
  then have "int (length vals) - int i - 1 = int (length vals - 1 - i)" by linarith
  then have "early_stopping self metric_name p = Inr (p - int (length vals - 1 - i) \<le> 0)"
    using assms(1) False i(1) by (simp add: early_stopping_def)
  with i False show ?thesis by auto
qed

text \<open>
  Claim C3, as amended. For every non-empty validation history of a metric, \<open>early_stopping\<close>
  returns, without an error, whether \<open>patience\<close> minus the number of entries recorded after
  the best entry is at most 0. The best entry is the one \<open>np.argmin\<close> (for "loss") or
  \<open>np.argmax\<close> (otherwise) selects: the first NaN of the history when it holds one, and else
  the earliest minimum for "loss" and the earliest maximum for any other metric; exactly one
  index has that property. In particular, on the validation history \<open>[0.5, 0.6, 0.55]\<close> of
  "auroc" it returns True with patience 1 and False with patience 2, and on the loss history
  \<open>[0.9, 0.8, 0.95, 1.0]\<close> it returns True with patience 1.
\<close>

theorem early_stopping_spec:
  "(map_of (value (valid (metrics self))) metric_name = Some vals \<and> vals \<noteq> [] \<longrightarrow>
      (\<exists>i. best_index metric_name vals i
          \<and> (\<forall>j. best_index metric_name vals j \<longrightarrow> j = i)
          \<and> early_stopping self metric_name p = Inr (p - int (length vals - 1 - i) \<le> 0)))
   \<and> (map_of (value (valid (metrics self))) ''auroc''
         = Some [Float (5 / 10), Float (6 / 10), Float (55 / 100)] \<longrightarrow>
        early_stopping self ''auroc'' 1 = Inr True \<and> early_stopping self ''auroc'' 2 = Inr False)
   \<and> (map_of (value (valid (metrics self))) ''loss''
         = Some [Float (9 / 10), Float (8 / 10), Float (95 / 100), Float 1] \<longrightarrow>
        early_stopping self ''loss'' 1 = Inr True)"
proof (intro conjI impI)
  assume a: "map_of (value (valid (metrics self))) metric_name = Some vals \<and> vals \<noteq> []"
  then obtain i where i: "best_index metric_name vals i"
    "early_stopping self metric_name p = Inr (p - int (length vals - 1 - i) \<le> 0)"
    using early_stopping_general by blast
  have "\<forall>j. best_index metric_name vals j \<longrightarrow> j = i"
    using i(1) best_index_unique by blast
  with i show "\<exists>i. best_index metric_name vals i
          \<and> (\<forall>j. best_index metric_name vals j \<longrightarrow> j = i)
          \<and> early_stopping self metric_name p = Inr (p - int (length vals - 1 - i) \<le> 0)"
    by blast
next
  assume "map_of (value (valid (metrics self))) ''auroc''
          = Some [Float (5 / 10), Float (6 / 10), Float (55 / 100)]"
  then show "early_stopping self ''auroc'' 1 = Inr True"
    by (simp add: early_stopping_def np_argmax_def)
next
  assume "map_of (value (valid (metrics self))) ''auroc''
          = Some [Float (5 / 10), Float (6 / 10), Float (55 / 100)]"
  then show "early_stopping self ''auroc'' 2 = Inr False"
    by (simp add: early_stopping_def np_argmax_def)
next
  assume "map_of (value (valid (metrics self))) ''loss''
          = Some [Float (9 / 10), Float (8 / 10), Float (95 / 100), Float 1]"
  then show "early_stopping self ''loss'' 1 = Inr True"
    by (simp add: early_stopping_def np_argmin_def)
qed

theorem early_stopping_spec_witness:
  "early_stopping
     \<lparr>model = \<lparr>weights = (), model_optimizer = \<lparr>learning_rate = 1 / 1000\<rparr>,
               model_metrics = [''auroc'']\<rparr>,
      metrics = (TrainMetrics_init [''loss'', ''auroc''])
        \<lparr>valid := \<lparr>value = [(''loss'', [Float (7 / 10), Float (6 / 10), Float (65 / 100)]),
                             (''auroc'', [Float (5 / 10), Float (6 / 10), Float (55 / 100)]),
                             (''auroc_std'', [Float 0, Float 0, Float 0])],
                    metric_names = [''loss'', ''auroc'']\<rparr>\<rparr>,
      lr_decay = None\<rparr> ''auroc'' 1 = Inr True
   \<and> early_stopping
     \<lparr>model = \<lparr>weights = (), model_optimizer = \<lparr>learning_rate = 1 / 1000\<rparr>,
               model_metrics = [''auroc'']\<rparr>,
      metrics = (TrainMetrics_init [''loss'', ''auroc''])
        \<lparr>valid := \<lparr>value = [(''loss'', [Float (7 / 10), Float (6 / 10), Float (65 / 100)]),
                             (''auroc'', [Float (5 / 10), Float (6 / 10), Float (55 / 100)]),
                             (''auroc_std'', [Float 0, Float 0, Float 0])],
                    metric_names = [''loss'', ''auroc'']\<rparr>\<rparr>,
      lr_decay = None\<rparr> ''auroc'' 2 = Inr False"
  using early_stopping_spec [of
     "\<lparr>model = \<lparr>weights = (), model_optimizer = \<lparr>learning_rate = 1 / 1000\<rparr>,
               model_metrics = [''auroc'']\<rparr>,
      metrics = (TrainMetrics_init [''loss'', ''auroc''])
        \<lparr>valid := \<lparr>value = [(''loss'', [Float (7 / 10), Float (6 / 10), Float (65 / 100)]),
                             (''auroc'', [Float (5 / 10), Float (6 / 10), Float (55 / 100)]),
                             (''auroc_std'', [Float 0, Float 0, Float 0])],
                    metric_names = [''loss'', ''auroc'']\<rparr>\<rparr>,
      lr_decay = None\<rparr>" "''auroc''" "[Float (5 / 10), Float (6 / 10), Float (55 / 100)]" 1]
  by simp

text \<open>
  Claim C3 as the specification words it counts the entries after the minimum of a loss
  history. The loss history \<open>[0.9, 0.8, nan, nan]\<close> (\<open>MonitorMetrics.update\<close> stores the
  \<open>nanmean\<close> of a batch of losses, which is NaN when all of them are) has its minimum 0.8 at
  index 1: no entry is smaller, two entries follow it, and with patience 2 the specification's
  formula gives True. \<open>np.argmin\<close> returns index 2, the first NaN, one entry follows it, and
  \<open>early_stopping\<close> returns False.
\<close>

theorem early_stopping_spec_counterexample:
  "early_stopping
     \<lparr>model = \<lparr>weights = (), model_optimizer = \<lparr>learning_rate = 1 / 1000\<rparr>,
               model_metrics = []\<rparr>,
      metrics = (TrainMetrics_init [''loss''])
        \<lparr>valid := \<lparr>value = [(''loss'', [Float (9 / 10), Float (8 / 10), NaN, NaN])],
                    metric_names = [''loss'']\<rparr>\<rparr>,
      lr_decay = None\<rparr> ''loss'' 2 = Inr False
   \<and> list_all (\<lambda>x. \<not> fless x (Float (8 / 10))) [Float (9 / 10), Float (8 / 10), NaN, NaN]
   \<and> [Float (9 / 10), Float (8 / 10), NaN, NaN] ! 1 = Float (8 / 10)
   \<and> (2 - int (length [Float (9 / 10), Float (8 / 10), NaN, NaN] - 1 - 1) \<le> 0)"
  by (simp add: early_stopping_def np_argmin_def)

subsection \<open>train_epoch\<close>

text \<open>
  Claim C1 asks for the predictions of all \<open>N\<close> samples in batch order when shuffling is
  disabled. The method does not get that far: with \<open>shuffle\<close> false \<open>batch_dataset\<close> is never
  assigned and every call raises \<open>UnboundLocalError\<close>, whatever the data set and batch size.
\<close>

theorem train_epoch_without_shuffle:
  "train_epoch fw self trainset False batch_size verbose = Inl (UnboundLocalError ''batch_dataset'')"
  by (simp add: train_epoch_def)

subsection \<open>The loop of fit_lr_decay\<close>










section \<open>Properties of progress_bar\<close>

lemma emit_Inr [simp]: "emit s (Inr out) = Inr (s @ out)"
  by (simp add: emit_def)

lemma emit_Inl [simp]: "emit s (Inl e) = Inl e"
  by (simp add: emit_def)

lemma emit_emit: "emit s (emit t r) = emit (s @ t) r"
  by (cases r) simp_all

lemma py_format_append:
  "py_format fm a va = Inr sa \<Longrightarrow> py_format fm (a @ b) (va @ vb) = emit sa (py_format fm b vb)"
proof (induction "length a" arbitrary: a va sa rule: less_induct)
  case less
  show ?case
  proof (cases a)
    case Nil
    with less.prems show ?thesis by (cases "py_format fm b vb") (auto split: if_splits)
  next
    case (Cons c cs)
    show ?thesis
    proof (cases "c = CHR ''%''")
      case False
      with less.prems Cons obtain s' where s': "py_format fm cs va = Inr s'" "sa = [c] @ s'"
        by (cases "py_format fm cs va") auto
      have "py_format fm (cs @ b) (va @ vb) = emit s' (py_format fm b vb)"
        using s'(1) Cons by (intro less.hyps) simp_all
      with False Cons s'(2) show ?thesis by (simp add: emit_emit)
    next
      case True
      note pc = True
      from less.prems Cons True obtain d ds where ds: "cs = d # ds" by (cases cs) auto
      show ?thesis
      proof (cases "d = CHR ''%''")
        case True
        with less.prems Cons pc ds obtain s' where s': "py_format fm ds va = Inr s'" "sa = ''%'' @ s'"
          by (cases "py_format fm ds va") auto
        have "py_format fm (ds @ b) (va @ vb) = emit s' (py_format fm b vb)"
          using s'(1) Cons ds by (intro less.hyps) simp_all
        with True pc Cons ds s'(2) show ?thesis by (simp add: emit_emit)
      next
        case False
        note nd = False
        show ?thesis
        proof (cases "d = CHR ''s''")
          case True
          from less.prems Cons pc ds True obtain v vs where v: "va = v # vs"
            by (cases va) auto
          define t where "t = (case v of Str s \<Rightarrow> s | Num x \<Rightarrow> format_str fm x)"
          from less.prems Cons pc ds True v obtain s' where
            s': "py_format fm ds vs = Inr s'" "sa = t @ s'"
            by (cases "py_format fm ds vs"; cases v) (auto simp: t_def)
          have "py_format fm (ds @ b) (vs @ vb) = emit s' (py_format fm b vb)"
            using s'(1) Cons ds by (intro less.hyps) simp_all
          with True pc Cons ds s'(2) v show ?thesis
            by (cases v) (simp_all add: emit_emit t_def)
        next
          case False
          note ns = False
          from less.prems Cons pc ds nd ns have dot: "d = CHR ''.''"
            by (auto split: if_splits)
          from less.prems Cons pc ds dot obtain p f r where r: "ds = p # f # r"
            by (cases ds; cases "tl ds") (auto split: if_splits)
          from less.prems Cons pc ds dot r have pf: "f = CHR ''f''" "p = CHR ''1'' \<or> p = CHR ''5''"
            by (auto split: if_splits)
          from less.prems Cons pc ds dot r pf obtain x vs where v: "va = Num x # vs"
            by (cases va; cases "hd va") (auto split: if_splits)
          define t where "t = (if p = CHR ''1'' then format_1f fm x else format_5f fm x)"
          from less.prems Cons pc ds dot r pf v obtain s' where
            s': "py_format fm r vs = Inr s'" "sa = t @ s'"
            by (cases "py_format fm r vs") (auto simp: t_def split: if_splits)
          have "py_format fm (r @ b) (vs @ vb) = emit s' (py_format fm b vb)"
            using s'(1) Cons ds r by (intro less.hyps) simp_all
          with pc Cons ds dot r pf v s'(2) show ?thesis
            by (auto simp: emit_emit t_def)
        qed
      qed
    qed
  qed
qed

lemma add_metric_render:
  assumes "py_format fm (fst tv) (snd tv) = Inr out"
    and "\<forall>x. py_format fm piece [Num x] = Inr (lit @ format_5f fm x)"
  shows "\<exists>extra. py_format fm (fst (add_metric kwargs name piece tv))
                    (snd (add_metric kwargs name piece tv)) = Inr (out @ extra)
               \<and> (CHR 0x0A \<notin> set lit \<and> (\<forall>x. CHR 0x0A \<notin> set (format_5f fm x))
                    \<longrightarrow> CHR 0x0A \<notin> set extra)"
proof (cases "kwargs name")
  case None
  then have "add_metric kwargs name piece tv = tv" by (simp add: add_metric_def)
  with assms(1) show ?thesis by (intro exI [of _ "[]"]) simp
next
  case (Some x)
  then have a: "add_metric kwargs name piece tv = (fst tv @ piece, snd tv @ [Num x])"
    by (simp add: add_metric_def)
  have "py_format fm (fst tv @ piece) (snd tv @ [Num x]) = emit out (py_format fm piece [Num x])"
    using assms(1) by (rule py_format_append)
  then have "py_format fm (fst tv @ piece) (snd tv @ [Num x]) = Inr (out @ lit @ format_5f fm x)"
    using assms(2) by simp
  then show ?thesis unfolding a by (intro exI [of _ "lit @ format_5f fm x"]) simp
qed

lemma add_metrics_render:
  assumes "py_format fm (fst tv) (snd tv) = Inr out"
    and "\<forall>np \<in> set ps. \<exists>lit. CHR 0x0A \<notin> set lit
            \<and> (\<forall>x. py_format fm (snd np) [Num x] = Inr (lit @ format_5f fm x))"
  shows "\<exists>extra. py_format fm (fst (foldl (\<lambda>tv np. add_metric kwargs (fst np) (snd np) tv) tv ps))
                    (snd (foldl (\<lambda>tv np. add_metric kwargs (fst np) (snd np) tv) tv ps))
                  = Inr (out @ extra)
               \<and> ((\<forall>x. CHR 0x0A \<notin> set (format_5f fm x)) \<longrightarrow> CHR 0x0A \<notin> set extra)"
  using assms
proof (induction ps arbitrary: tv out)
  case Nil
  then show ?case by (intro exI [of _ "[]"]) simp
next
  case (Cons np ps)
  from Cons.prems(2) obtain lit where lit: "CHR 0x0A \<notin> set lit"
    "\<forall>x. py_format fm (snd np) [Num x] = Inr (lit @ format_5f fm x)" by auto
  let ?tv1 = "add_metric kwargs (fst np) (snd np) tv"
  from add_metric_render [OF Cons.prems(1) lit(2), of kwargs "fst np"] obtain e1 where
    e1: "py_format fm (fst ?tv1) (snd ?tv1) = Inr (out @ e1)"
    "(\<forall>x. CHR 0x0A \<notin> set (format_5f fm x)) \<longrightarrow> CHR 0x0A \<notin> set e1"
    using lit(1) by blast
  have "\<forall>np \<in> set ps. \<exists>lit. CHR 0x0A \<notin> set lit
            \<and> (\<forall>x. py_format fm (snd np) [Num x] = Inr (lit @ format_5f fm x))"
    using Cons.prems(2) by simp
  from Cons.IH [OF e1(1) this] obtain e2 where
    e2: "py_format fm (fst (foldl (\<lambda>tv np. add_metric kwargs (fst np) (snd np) tv) ?tv1 ps))
                    (snd (foldl (\<lambda>tv np. add_metric kwargs (fst np) (snd np) tv) ?tv1 ps))
                  = Inr ((out @ e1) @ e2)"
    "(\<forall>x. CHR 0x0A \<notin> set (format_5f fm x)) \<longrightarrow> CHR 0x0A \<notin> set e2" by blast
  show ?case using e1(2) e2 by (intro exI [of _ "e1 @ e2"]) simp
qed

lemma pieces_render:
  "\<forall>np \<in> set pieces. \<exists>lit. CHR 0x0A \<notin> set lit
      \<and> (\<forall>x. py_format fm (snd np) [Num x] = Inr (lit @ format_5f fm x))"
proof -
  have "\<exists>lit. CHR 0x0A \<notin> set lit \<and> (\<forall>x. py_format fm ('' -- '' @ n @ ''=%.5f'') [Num x]
                 = Inr (lit @ format_5f fm x))"
    if "CHR ''%'' \<notin> set n" "CHR 0x0A \<notin> set n" for n
  proof -
    have lit: "py_format fm s [] = Inr s" if "CHR ''%'' \<notin> set s" for s
      using that by (induction s) auto
    have "py_format fm (('' -- '' @ n @ ''='') @ ''%.5f'') ([] @ [Num x])
          = emit ('' -- '' @ n @ ''='') (py_format fm ''%.5f'' [Num x])" for x
      by (rule py_format_append, rule lit) (use that in simp)
    then have "\<forall>x. py_format fm ('' -- '' @ n @ ''=%.5f'') [Num x]
          = Inr (('' -- '' @ n @ ''='') @ format_5f fm x)" by simp
    moreover have "CHR 0x0A \<notin> set ('' -- '' @ n @ ''='')" using that by simp
    ultimately show ?thesis by blast
  qed
  from this [of "''loss''"] this [of "''acc''"] this [of "''auroc''"] this [of "''aupr''"]
    this [of "''pearsonr''"] this [of "''mcc''"] this [of "''mse''"]
  show ?thesis by (simp add: pieces_def)
qed

lemma progress_bar_eq:
  assumes "num_batches \<noteq> 0" and "iter = num_batches \<or> iter + 1 \<noteq> 0"
  shows "progress_bar fm now iter num_batches start_time bar_length kwargs =
     (let percent = real_of_int iter / real_of_int num_batches;
          bar = replicate (nat (py_round (percent * real_of_int bar_length))) CHR ''=''
                @ replicate (nat (bar_length - py_round (percent * real_of_int bar_length))) CHR '' '';
          tv0 = (if iter = num_batches
                 then ([CHR 0x0D] @ ''[%s] %.1f%% -- elapsed time=%.1fs'',
                       [Str bar, Num (percent * 100), Num (now - start_time)])
                 else ([CHR 0x0D] @ ''[%s] %.1f%%  -- remaining time=%.1fs'',
                       [Str bar, Num (percent * 100),
                        Num ((now - start_time) * real_of_int (num_batches - (iter + 1))
                             / real_of_int (iter + 1))]));
          tv7 = foldl (\<lambda>tv np. add_metric kwargs (fst np) (snd np) tv) tv0 pieces
      in py_format fm (if iter = num_batches then fst tv7 @ [CHR 0x0A] else fst tv7) (snd tv7))"
  using assms by (auto simp: progress_bar_def Let_def pieces_def)

lemma render_elapsed:
  "py_format fm ([CHR 0x0D] @ ''[%s] %.1f%% -- elapsed time=%.1fs'') [Str bar, Num p, Num e]
   = Inr ([CHR 0x0D] @ ''['' @ bar @ ''] '' @ format_1f fm p @ ''% -- elapsed time=''
          @ format_1f fm e @ ''s'')"
  by simp

lemma render_remaining:
  "py_format fm ([CHR 0x0D] @ ''[%s] %.1f%%  -- remaining time=%.1fs'') [Str bar, Num p, Num e]
   = Inr ([CHR 0x0D] @ ''['' @ bar @ ''] '' @ format_1f fm p @ ''%  -- remaining time=''
          @ format_1f fm e @ ''s'')"
  by simp

lemma digit_char_clean: "digit_char n \<noteq> CHR 0x0A"
proof -
  have "n mod 10 < length ''0123456789''" by simp
  then have "digit_char n \<in> set ''0123456789''" unfolding digit_char_def by (rule nth_mem)
  then show ?thesis by auto
qed

lemma dec_digits_clean: "CHR 0x0A \<notin> set (dec_digits n)"
proof (induction n rule: dec_digits.induct)
  case (1 n)
  show ?case
  proof (cases "n < 10")
    case True
    then show ?thesis using digit_char_clean [of n] by (simp add: dec_digits.simps [of n])
  next
    case False
    with 1 show ?thesis using digit_char_clean [of n] by (simp add: dec_digits.simps [of n])
  qed
qed

lemma format_fixed_clean: "CHR 0x0A \<notin> set (format_fixed d x)"
  by (simp add: format_fixed_def Let_def dec_digits_clean)

lemma example_formatter_clean:
  "\<forall>x. CHR 0x0A \<notin> set (format_1f example_formatter x)
     \<and> CHR 0x0A \<notin> set (format_5f example_formatter x)"
  by (simp add: example_formatter_def format_fixed_clean)


text \<open>
  Claim C9, as amended. For every call of \<open>progress_bar\<close> with a number of batches other
  than zero: when the current batch index equals the total, the output contains the
  elapsed-time summary and ends with a line terminator; when the index is strictly less
  than the total and is not \<open>-1\<close>, the output reports the extrapolated remaining time and,
  the float formatting emitting none, contains no line terminator.
\<close>

theorem progress_bar_output:
  "(iter = num_batches \<and> num_batches \<noteq> 0 \<longrightarrow>
      (\<exists>pre post.
          progress_bar fm now iter num_batches start_time bar_length kwargs
          = Inr (pre @ ''elapsed time='' @ format_1f fm (now - start_time) @ ''s'' @ post
                 @ [CHR 0x0A])))
   \<and> (iter < num_batches \<and> num_batches \<noteq> 0 \<and> iter \<noteq> - 1
        \<and> (\<forall>x. CHR 0x0A \<notin> set (format_1f fm x) \<and> CHR 0x0A \<notin> set (format_5f fm x)) \<longrightarrow>
      (\<exists>out pre post.
          progress_bar fm now iter num_batches start_time bar_length kwargs = Inr out
          \<and> out = pre @ ''remaining time=''
                  @ format_1f fm ((now - start_time) * real_of_int (num_batches - (iter + 1))
                                  / real_of_int (iter + 1))
                  @ ''s'' @ post
          \<and> CHR 0x0A \<notin> set out))"
proof (intro conjI impI)
  assume a: "iter = num_batches \<and> num_batches \<noteq> 0"
  define percent where "percent = real_of_int iter / real_of_int num_batches"
  define bar where "bar = replicate (nat (py_round (percent * real_of_int bar_length))) CHR ''=''
                @ replicate (nat (bar_length - py_round (percent * real_of_int bar_length))) CHR '' ''"
  define tv0 where "tv0 = ([CHR 0x0D] @ ''[%s] %.1f%% -- elapsed time=%.1fs'',
                       [Str bar, Num (percent * 100), Num (now - start_time)])"
  define tv7 where "tv7 = foldl (\<lambda>tv np. add_metric kwargs (fst np) (snd np) tv) tv0 pieces"
  define pre where "pre = [CHR 0x0D] @ ''['' @ bar @ ''] '' @ format_1f fm (percent * 100) @ ''% -- ''"
  have pb: "progress_bar fm now iter num_batches start_time bar_length kwargs
            = py_format fm (fst tv7 @ [CHR 0x0A]) (snd tv7 @ [])"
    using a progress_bar_eq [of num_batches iter fm now start_time bar_length kwargs]
    by (simp add: Let_def percent_def bar_def tv0_def tv7_def)
  have "py_format fm (fst tv0) (snd tv0)
        = Inr (pre @ ''elapsed time='' @ format_1f fm (now - start_time) @ ''s'')"
    unfolding tv0_def pre_def fst_conv snd_conv render_elapsed by simp
  from add_metrics_render [OF this pieces_render, of kwargs] obtain extra where
    "py_format fm (fst tv7) (snd tv7)
     = Inr ((pre @ ''elapsed time='' @ format_1f fm (now - start_time) @ ''s'') @ extra)"
    unfolding tv7_def by blast
  from py_format_append [OF this, of "[CHR 0x0A]" "[]"]
  have "progress_bar fm now iter num_batches start_time bar_length kwargs
        = Inr (pre @ ''elapsed time='' @ format_1f fm (now - start_time) @ ''s'' @ extra @ [CHR 0x0A])"
    unfolding pb by simp
  then show "\<exists>pre post.
          progress_bar fm now iter num_batches start_time bar_length kwargs
          = Inr (pre @ ''elapsed time='' @ format_1f fm (now - start_time) @ ''s'' @ post
                 @ [CHR 0x0A])" by blast
next
  assume a: "iter < num_batches \<and> num_batches \<noteq> 0 \<and> iter \<noteq> - 1
        \<and> (\<forall>x. CHR 0x0A \<notin> set (format_1f fm x) \<and> CHR 0x0A \<notin> set (format_5f fm x))"
  define percent where "percent = real_of_int iter / real_of_int num_batches"
  define bar where "bar = replicate (nat (py_round (percent * real_of_int bar_length))) CHR ''=''
                @ replicate (nat (bar_length - py_round (percent * real_of_int bar_length))) CHR '' ''"
  define rem where "rem = (now - start_time) * real_of_int (num_batches - (iter + 1))
                             / real_of_int (iter + 1)"
  define tv0 where "tv0 = ([CHR 0x0D] @ ''[%s] %.1f%%  -- remaining time=%.1fs'',
                       [Str bar, Num (percent * 100), Num rem])"
  define tv7 where "tv7 = foldl (\<lambda>tv np. add_metric kwargs (fst np) (snd np) tv) tv0 pieces"
  define pre where "pre = [CHR 0x0D] @ ''['' @ bar @ ''] '' @ format_1f fm (percent * 100) @ ''%  -- ''"
  have i1: "iter + 1 \<noteq> 0" using a by linarith
  have pb: "progress_bar fm now iter num_batches start_time bar_length kwargs
            = py_format fm (fst tv7) (snd tv7)"
    using a i1 progress_bar_eq [of num_batches iter fm now start_time bar_length kwargs]
    by (simp add: Let_def percent_def bar_def tv0_def tv7_def rem_def)
  have "py_format fm (fst tv0) (snd tv0)
        = Inr (pre @ ''remaining time='' @ format_1f fm rem @ ''s'')"
    unfolding tv0_def pre_def fst_conv snd_conv render_remaining by simp
  from add_metrics_render [OF this pieces_render, of kwargs] obtain extra where
    e: "py_format fm (fst tv7) (snd tv7)
     = Inr ((pre @ ''remaining time='' @ format_1f fm rem @ ''s'') @ extra)"
    "CHR 0x0A \<notin> set extra"
    unfolding tv7_def using a by blast
  have "CHR 0x0A \<notin> set bar" by (auto simp: bar_def)
  then have "CHR 0x0A \<notin> set pre" using a by (simp add: pre_def)
  moreover have "CHR 0x0A \<notin> set (format_1f fm rem)" using a by simp
  ultimately show "\<exists>out pre post.
          progress_bar fm now iter num_batches start_time bar_length kwargs = Inr out
          \<and> out = pre @ ''remaining time=''
                  @ format_1f fm ((now - start_time) * real_of_int (num_batches - (iter + 1))
                                  / real_of_int (iter + 1))
                  @ ''s'' @ post
          \<and> CHR 0x0A \<notin> set out"
    using e unfolding pb rem_def
    by (intro exI [of _ "(pre @ ''remaining time='' @ format_1f fm rem @ ''s'') @ extra"]
          exI [of _ pre] exI [of _ extra]) (simp add: rem_def)
qed

theorem progress_bar_output_witness:
  "(\<exists>pre post. progress_bar example_formatter 3 2 2 1 4 [''loss'' \<mapsto> 1 / 2]
        = Inr (pre @ ''elapsed time=2.0s'' @ post @ [CHR 0x0A]))
   \<and> (\<exists>out pre post. progress_bar example_formatter 3 1 2 1 4 [''loss'' \<mapsto> 1 / 2] = Inr out
        \<and> out = pre @ ''remaining time=0.0s'' @ post \<and> CHR 0x0A \<notin> set out)"
proof -
  have e: "format_1f example_formatter (3 - 1) = ''2.0''"
    by (simp add: example_formatter_def format_fixed_def py_round_def dec_digits.simps digit_char_def)
  have r: "format_1f example_formatter ((3 - 1) * real_of_int (2 - (1 + 1)) / real_of_int (1 + 1)) = ''0.0''"
    by (simp add: example_formatter_def format_fixed_def py_round_def dec_digits.simps digit_char_def)
  have a: "(2::int) = 2 \<and> (2::int) \<noteq> 0" by simp
  have b: "(1::int) < 2 \<and> (2::int) \<noteq> 0 \<and> (1::int) \<noteq> - 1
           \<and> (\<forall>x. CHR 0x0A \<notin> set (format_1f example_formatter x)
                  \<and> CHR 0x0A \<notin> set (format_5f example_formatter x))"
    using example_formatter_clean by simp
  from progress_bar_output [of 2 2 example_formatter 3 1 4 "[''loss'' \<mapsto> 1 / 2]"] a
  have 1: "\<exists>pre post. progress_bar example_formatter 3 2 2 1 4 [''loss'' \<mapsto> 1 / 2]
        = Inr (pre @ ''elapsed time='' @ format_1f example_formatter (3 - 1) @ ''s'' @ post @ [CHR 0x0A])"
    by blast
  from progress_bar_output [of 1 2 example_formatter 3 1 4 "[''loss'' \<mapsto> 1 / 2]"] b
  have 2: "\<exists>out pre post. progress_bar example_formatter 3 1 2 1 4 [''loss'' \<mapsto> 1 / 2] = Inr out
        \<and> out = pre @ ''remaining time=''
               @ format_1f example_formatter ((3 - 1) * real_of_int (2 - (1 + 1)) / real_of_int (1 + 1))
               @ ''s'' @ post
        \<and> CHR 0x0A \<notin> set out"
    by blast
  from 1 2 show ?thesis unfolding e r by simp
qed

text \<open>
  The claim as stated fails: with no batches at all (index 0 of 0) \<open>iter/num_batches\<close>
  divides by zero and nothing is written, and so does the extrapolation at index \<open>-1\<close>.
\<close>

theorem progress_bar_output_counterexample:
  "progress_bar example_formatter 3 0 0 1 30 Map.empty = Inl ZeroDivisionError
   \<and> progress_bar example_formatter 3 (- 1) 5 1 30 Map.empty = Inl ZeroDivisionError"
  by (simp add: progress_bar_def)

end
